theory Spec2Isabelle
  imports Complex_Main "HOL-Library.Code_Target_Nat"
begin

section \<open>Values of the host language\<close>

text \<open>
  The program is a JavaScript file, \<^verbatim>\<open>progrelig14/results.js\<close>.  A JavaScript number is
  a binary64 value: not-a-number, a finite value (kept here as the rational it
  denotes; the two zeros are not told apart, no operation of the program does), or
  one of the two infinities.
\<close>

datatype jsnum = NaN | Fin rat | PosInf | NegInf

text \<open>
  The values a field of a survey row can hold: \<^verbatim>\<open>undefined\<close> (also what reading an
  absent property gives), \<^verbatim>\<open>null\<close>, a string, a number, an array of strings (what
  \<^verbatim>\<open>split\<close> returns) and a date with its time value.  Strings are lists of
  characters with codes 0 to 255, read as the code points U+0000 to U+00FF.
\<close>

datatype jsval = Undefined | Null | Str string | Num jsnum | Arr "string list" | Date jsnum

text \<open>Calling a method that the receiver does not have raises a \<^verbatim>\<open>TypeError\<close>.\<close>

datatype error = TypeError

text \<open>An object is a finite map from property names to values; objects live in a store.\<close>

type_synonym obj = "string \<rightharpoonup> jsval"

type_synonym addr = nat

type_synonym store = "addr \<Rightarrow> obj"

definition get :: "obj \<Rightarrow> string \<Rightarrow> jsval" where
  "get d k = (case d k of None \<Rightarrow> Undefined | Some v \<Rightarrow> v)"

section \<open>String primitives\<close>

text \<open>
  \<^verbatim>\<open>String.prototype.trim\<close> strips white space and line terminators from both ends;
  among the code points below 256 these are TAB, LF, VT, FF, CR, SP and NBSP.
\<close>

definition is_space :: "char \<Rightarrow> bool" where
  "is_space c = (of_char c \<in> {9, 10, 11, 12, 13, 32, 160 :: nat})"

definition trim :: "string \<Rightarrow> string" where
  "trim s = rev (dropWhile is_space (rev (dropWhile is_space s)))"

text \<open>
  \<^verbatim>\<open>String.prototype.toLowerCase\<close>: below 256 the upper-case letters are A to Z and
  U+00C0 to U+00DE without the multiplication sign U+00D7; each maps 32 places up.
\<close>

definition toLowerCase_char :: "char \<Rightarrow> char" where
  "toLowerCase_char c =
     (let n = of_char c :: nat
      in if (65 \<le> n \<and> n \<le> 90) \<or> (192 \<le> n \<and> n \<le> 222 \<and> n \<noteq> 215)
         then char_of (n + 32) else c)"

definition toLowerCase :: "string \<Rightarrow> string" where
  "toLowerCase s = map toLowerCase_char s"

subsection \<open>Regular expressions\<close>

text \<open>
  The five patterns of \<^verbatim>\<open>langPatterns\<close> use literals, the dot, concatenation,
  alternation with an empty branch, the star and the plus.  \<^verbatim>\<open>x.match(re)\<close> with a
  pattern that has no anchors and no \<^verbatim>\<open>g\<close> flag is truthy exactly when some
  substring of \<^verbatim>\<open>x\<close> is in the language of the pattern.  The matcher below decides
  that with derivatives.
\<close>

datatype regex =
    Fail
  | Empty
  | Lit char
  | AnyChar
  | Cat regex regex
  | Alt regex regex
  | Star regex
  | Plus regex

text \<open>The dot matches every character but a line terminator.\<close>

definition line_terminator :: "char \<Rightarrow> bool" where
  "line_terminator c = (of_char c \<in> {10, 13 :: nat})"

fun nullable :: "regex \<Rightarrow> bool" where
  "nullable Fail = False"
| "nullable Empty = True"
| "nullable (Lit c) = False"
| "nullable AnyChar = False"
| "nullable (Cat r s) = (nullable r \<and> nullable s)"
| "nullable (Alt r s) = (nullable r \<or> nullable s)"
| "nullable (Star r) = True"
| "nullable (Plus r) = nullable r"

fun deriv :: "char \<Rightarrow> regex \<Rightarrow> regex" where
  "deriv c Fail = Fail"
| "deriv c Empty = Fail"
| "deriv c (Lit d) = (if c = d then Empty else Fail)"
| "deriv c AnyChar = (if line_terminator c then Fail else Empty)"
| "deriv c (Cat r s) =
     (if nullable r then Alt (Cat (deriv c r) s) (deriv c s) else Cat (deriv c r) s)"
| "deriv c (Alt r s) = Alt (deriv c r) (deriv c s)"
| "deriv c (Star r) = Cat (deriv c r) (Star r)"
| "deriv c (Plus r) = Cat (deriv c r) (Star r)"

text \<open>Some prefix of the string is in the language of the pattern.\<close>

fun match_prefix :: "regex \<Rightarrow> string \<Rightarrow> bool" where
  "match_prefix r [] = nullable r"
| "match_prefix r (c # cs) = (nullable r \<or> match_prefix (deriv c r) cs)"

text \<open>Some substring is: \<^verbatim>\<open>x.match(r)\<close> is not \<^verbatim>\<open>null\<close>.\<close>

fun js_match :: "string \<Rightarrow> regex \<Rightarrow> bool" where
  "js_match [] r = nullable r"
| "js_match (c # cs) r = (match_prefix r (c # cs) \<or> js_match cs r)"

text \<open>A run of literal characters.\<close>

fun lits :: "string \<Rightarrow> regex" where
  "lits [] = Empty"
| "lits (c # cs) = Cat (Lit c) (lits cs)"

text \<open>
  What the matcher decides: the strings a pattern matches as a whole, and the
  repetitions of the strings of a set.
\<close>

inductive_set repeated :: "string set \<Rightarrow> string set" for A :: "string set" where
  none: "[] \<in> repeated A"
| more: "u \<in> A \<Longrightarrow> v \<in> repeated A \<Longrightarrow> u @ v \<in> repeated A"

fun matched :: "regex \<Rightarrow> string set" where
  "matched Fail = {}"
| "matched Empty = {[]}"
| "matched (Lit c) = {[c]}"
| "matched AnyChar = {[c] | c. \<not> line_terminator c}"
| "matched (Cat r s) = {u @ v | u v. u \<in> matched r \<and> v \<in> matched s}"
| "matched (Alt r s) = matched r \<union> matched s"
| "matched (Star r) = repeated (matched r)"
| "matched (Plus r) = {u @ v | u v. u \<in> matched r \<and> v \<in> repeated (matched r)}"

section \<open>Normalising the favourite language\<close>

text \<open>
  \<^verbatim>\<open>langPatterns\<close>, in declaration order (the order in which \<^verbatim>\<open>for ... in\<close> visits
  the keys of the object literal, none of which is an array index):
  \<^verbatim>\<open>/c\++/\<close>, \<^verbatim>\<open>/objective.*c/\<close>, \<^verbatim>\<open>/go(|lang)/\<close>, \<^verbatim>\<open>/pyth.*/\<close>, \<^verbatim>\<open>/(c#|\.net)/\<close>.
\<close>

definition langPatterns :: "(string \<times> regex) list" where
  "langPatterns =
     [(''c++'', Cat (Lit CHR ''c'') (Plus (Lit CHR ''+''))),
      (''objective-c'', Cat (lits ''objective'') (Cat (Star AnyChar) (Lit CHR ''c''))),
      (''go'', Cat (lits ''go'') (Alt Empty (lits ''lang''))),
      (''python'', Cat (lits ''pyth'') (Star AnyChar)),
      (''c#'', Alt (lits ''c#'') (lits ''.net''))]"

text \<open>The loop of \<^verbatim>\<open>parseLang\<close>: the tag of the first pattern that matches, else the input.\<close>

fun first_match :: "(string \<times> regex) list \<Rightarrow> string \<Rightarrow> string" where
  "first_match [] x = x"
| "first_match ((lang, r) # ps) x = (if js_match x r then lang else first_match ps x)"

definition parseLang_string :: "string \<Rightarrow> string" where
  "parseLang_string x = first_match langPatterns (toLowerCase (trim x))"

text \<open>
  \<^verbatim>\<open>parseLang(x)\<close> starts with \<^verbatim>\<open>x.trim()\<close>, which only a string has: on any other
  value of a row the call raises.
\<close>

fun parseLang :: "jsval \<Rightarrow> error + jsval" where
  "parseLang (Str x) = Inr (Str (parseLang_string x))"
| "parseLang v = Inl TypeError"

section \<open>Numbers\<close>

subsection \<open>Rounding to binary64\<close>

text \<open>
  Every arithmetic result and every numeric literal is the binary64 value nearest to
  the exact one, ties going to the even significand.  For a positive rational \<open>q\<close>
  the binade is found first (its exponent \<open>e\<close>, not below the least normal
  exponent -1022), the quantum there is \<open>2\<^sup>e\<^sup>-\<^sup>5\<^sup>2\<close>, and \<open>q\<close> is rounded to a
  multiple of the quantum; a result of \<open>2\<^sup>1\<^sup>0\<^sup>2\<^sup>4\<close> or more is an infinity.
\<close>

definition round_half_even :: "rat \<Rightarrow> int" where
  "round_half_even x =
     (let f = \<lfloor>x\<rfloor>; d = x - of_int f
      in if d < 1 / 2 then f else if 1 / 2 < d then f + 1 else if even f then f else f + 1)"

fun bit_length :: "nat \<Rightarrow> nat" where
  "bit_length n = (if n = 0 then 0 else Suc (bit_length (n div 2)))"

declare bit_length.simps [simp del]

text \<open>How often a positive \<open>q\<close> below 1 is doubled before it reaches 1, at most \<open>k\<close> times.\<close>

fun doublings :: "nat \<Rightarrow> rat \<Rightarrow> nat" where
  "doublings 0 q = 0"
| "doublings (Suc k) q = (if 1 \<le> q then 0 else Suc (doublings k (2 * q)))"

definition pow2 :: "int \<Rightarrow> rat" where
  "pow2 e = (if 0 \<le> e then 2 ^ nat e else 1 / 2 ^ nat (- e))"

definition binary_exponent :: "rat \<Rightarrow> int" where
  "binary_exponent q =
     (if 1 \<le> q then int (bit_length (nat \<lfloor>q\<rfloor>)) - 1 else - int (doublings 1022 q))"

definition round_magnitude :: "rat \<Rightarrow> rat" where
  "round_magnitude q =
     (let u = pow2 (binary_exponent q - 52) in of_int (round_half_even (q / u)) * u)"

definition round_double :: "rat \<Rightarrow> jsnum" where
  "round_double q =
     (if q = 0 then Fin 0
      else let m = round_magnitude \<bar>q\<bar>
           in if pow2 1024 \<le> m then (if 0 < q then PosInf else NegInf)
              else Fin (if 0 < q then m else - m))"

subsection \<open>Comparison\<close>

text \<open>\<^verbatim>\<open>a < b\<close> and \<^verbatim>\<open>a == b\<close> on numbers; both are false when an operand is not a number.\<close>

fun js_lt :: "jsnum \<Rightarrow> jsnum \<Rightarrow> bool" where
  "js_lt NaN b = False"
| "js_lt a NaN = False"
| "js_lt (Fin a) (Fin b) = (a < b)"
| "js_lt (Fin a) PosInf = True"
| "js_lt (Fin a) NegInf = False"
| "js_lt PosInf b = False"
| "js_lt NegInf (Fin b) = True"
| "js_lt NegInf PosInf = True"
| "js_lt NegInf NegInf = False"

fun js_num_eq :: "jsnum \<Rightarrow> jsnum \<Rightarrow> bool" where
  "js_num_eq NaN b = False"
| "js_num_eq a NaN = False"
| "js_num_eq a b = (a = b)"

text \<open>\<^verbatim>\<open>a >= b\<close>\<close>

definition js_ge :: "jsnum \<Rightarrow> jsnum \<Rightarrow> bool" where
  "js_ge a b = (js_lt b a \<or> js_num_eq a b)"

subsection \<open>Strings to numbers\<close>

text \<open>
  The unary plus of \<^verbatim>\<open>parseRow\<close> applies \<^verbatim>\<open>ToNumber\<close>.  On a string it reads the
  grammar of numeric string literals: white space around; nothing (the value 0); a
  decimal literal with an optional sign, \<^verbatim>\<open>Infinity\<close> or digits with an optional
  fraction and exponent; or, without a sign, digits in radix 16, 8 or 2 after
  \<^verbatim>\<open>0x\<close>, \<^verbatim>\<open>0o\<close> or \<^verbatim>\<open>0b\<close>.  Anything else is not a number.
\<close>

definition digit_value :: "char \<Rightarrow> nat" where
  "digit_value c =
     (let n = of_char c :: nat
      in if 48 \<le> n \<and> n \<le> 57 then n - 48
         else if 97 \<le> n \<and> n \<le> 102 then n - 87
         else if 65 \<le> n \<and> n \<le> 70 then n - 55
         else 16)"

definition is_digit :: "char \<Rightarrow> bool" where
  "is_digit c = (digit_value c < 10)"

text \<open>The value of a run of digits in a radix; of the empty run, 0.\<close>

definition digits_value :: "nat \<Rightarrow> string \<Rightarrow> nat" where
  "digits_value b s = foldl (\<lambda>a c. a * b + digit_value c) 0 s"

text \<open>A string that is one or more digits of the radix and nothing else.\<close>

definition radix_digits :: "nat \<Rightarrow> string \<Rightarrow> nat option" where
  "radix_digits b s =
     (if s \<noteq> [] \<and> list_all (\<lambda>c. digit_value c < b) s then Some (digits_value b s) else None)"

text \<open>The exponent after \<^verbatim>\<open>e\<close>: digits with an optional sign.\<close>

definition signed_integer :: "string \<Rightarrow> int option" where
  "signed_integer s =
     (if s \<noteq> [] \<and> hd s = CHR ''-'' then map_option (\<lambda>n. - int n) (radix_digits 10 (tl s))
      else if s \<noteq> [] \<and> hd s = CHR ''+'' then map_option int (radix_digits 10 (tl s))
      else map_option int (radix_digits 10 s))"

definition pow10 :: "int \<Rightarrow> rat" where
  "pow10 e = (if 0 \<le> e then 10 ^ nat e else 1 / 10 ^ nat (- e))"

text \<open>
  The exact value of an unsigned decimal literal: digits, then optionally a dot and
  digits, then optionally an exponent; at least one digit before the exponent.
\<close>

definition str_unsigned_decimal :: "string \<Rightarrow> rat option" where
  "str_unsigned_decimal s =
     (let ip = takeWhile is_digit s;
          r1 = dropWhile is_digit s;
          dot = (r1 \<noteq> [] \<and> hd r1 = CHR ''.'');
          fp = (if dot then takeWhile is_digit (tl r1) else []);
          r2 = (if dot then dropWhile is_digit (tl r1) else r1);
          ex = (if r2 = [] then Some 0
                else if hd r2 = CHR ''e'' \<or> hd r2 = CHR ''E'' then signed_integer (tl r2)
                else None)
      in if ip = [] \<and> fp = [] then None
         else case ex of
                None \<Rightarrow> None
              | Some e \<Rightarrow>
                  Some ((of_nat (digits_value 10 ip)
                         + of_nat (digits_value 10 fp) / 10 ^ length fp) * pow10 e))"

definition str_decimal_literal :: "string \<Rightarrow> jsnum" where
  "str_decimal_literal s =
     (let neg = (s \<noteq> [] \<and> hd s = CHR ''-'');
          body = (if s \<noteq> [] \<and> (hd s = CHR ''-'' \<or> hd s = CHR ''+'') then tl s else s)
      in if body = ''Infinity'' then (if neg then NegInf else PosInf)
         else case str_unsigned_decimal body of
                None \<Rightarrow> NaN
              | Some q \<Rightarrow> round_double (if neg then - q else q))"

definition radix_literal :: "nat \<Rightarrow> string \<Rightarrow> jsnum" where
  "radix_literal b s =
     (case radix_digits b s of None \<Rightarrow> NaN | Some n \<Rightarrow> round_double (of_nat n))"

definition string_to_number :: "string \<Rightarrow> jsnum" where
  "string_to_number s =
     (let t = trim s; p = take 2 t
      in if t = [] then Fin 0
         else if p = ''0x'' \<or> p = ''0X'' then radix_literal 16 (drop 2 t)
         else if p = ''0o'' \<or> p = ''0O'' then radix_literal 8 (drop 2 t)
         else if p = ''0b'' \<or> p = ''0B'' then radix_literal 2 (drop 2 t)
         else str_decimal_literal t)"

text \<open>
  The characters that occur in numeric string literals: white space, the digits of
  radix 16, the signs, the dot, the radix marks, and the letters of \<^verbatim>\<open>Infinity\<close>.
\<close>

definition numeric_char :: "char \<Rightarrow> bool" where
  "numeric_char c = (is_space c \<or> digit_value c < 16 \<or> c \<in> set ''+-.xXoOInity'')"

text \<open>\<^verbatim>\<open>Array.prototype.join\<close> with a comma, which is how an array turns into a string.\<close>

fun join :: "string list \<Rightarrow> string" where
  "join [] = []"
| "join [x] = x"
| "join (x # y # ys) = x @ '','' @ join (y # ys)"

text \<open>
  \<^verbatim>\<open>ToNumber\<close> on the values of a row.  An array goes through its string form; a date
  gives its time value.
\<close>

fun to_number :: "jsval \<Rightarrow> jsnum" where
  "to_number Undefined = NaN"
| "to_number Null = Fin 0"
| "to_number (Str s) = string_to_number s"
| "to_number (Num n) = n"
| "to_number (Arr xs) = string_to_number (join xs)"
| "to_number (Date t) = t"

section \<open>The schema\<close>

text \<open>
  The object \<^verbatim>\<open>fields\<close> maps a short key to the full survey question, which is the
  column header of the CSV file and so the property name in every row.
\<close>

definition fields_beliefs :: string where
  "fields_beliefs = ''How would you categorize your beliefs?''"

definition fields_churchatt :: string where
  "fields_churchatt = ''How often do you voluntarily attend religious services?''"

definition fields_superexst :: string where
  "fields_superexst = ''Supernatural forces exist which cannot be directly addressed by science''"

definition fields_superpers :: string where
  "fields_superpers = ''I have personally had a supernatural spiritual experience''"

definition fields_godrelate :: string where
  "fields_godrelate = ''We can relate to God personally, as opposed to an impersonal force''"

definition fields_godspeaks :: string where
  "fields_godspeaks = ''God communicates to people in ways we can clearly understand''"

definition fields_bibletrue :: string where
  "fields_bibletrue = ''Holy scriptures are a reliable source of divine truth''"

definition fields_bibleusfl :: string where
  "fields_bibleusfl = ''Holy scriptures are a reliable source of practical guidance for everyday life''"

definition fields_divpunish :: string where
  "fields_divpunish = ''Unrighteousness or wrongdoing will be punished in the afterlife''"

definition fields_divreward :: string where
  "fields_divreward = ''Righteousness is rewarded in the afterlife''"

definition fields_universal :: string where
  "fields_universal = ''All people will eventually be reconciled with or joined to God''"

definition fields_humangood :: string where
  "fields_humangood = ''Human beings are basically or inherently good''"

definition fields_suffersin :: string where
  "fields_suffersin = ''Human suffering in this life is caused by sin or unrighteousness''"

definition fields_humancrea :: string where
  "fields_humancrea = ''Human beings were specially created in their present form, apart from natural processes''"

definition fields_naturcrea :: string where
  "fields_naturcrea = ''Naturalistic theories are insufficient to account for the origin and complexity of life''"

definition fields_favlang :: string where
  "fields_favlang = ''What is your favorite programming language?''"

definition fields_worklangs :: string where
  "fields_worklangs = ''What is your primary programming language used at work (if any)?''"

definition fields_progyears :: string where
  "fields_progyears = ''How many years have you been programming?''"

definition fields_workyears :: string where
  "fields_workyears = ''How many years have you been programming professionally?''"

definition fields_maxeducat :: string where
  "fields_maxeducat = ''How would you describe your education?''"

definition fields_feedback :: string where
  "fields_feedback = ''Feedback''"

text \<open>The fields that allowed several responses.\<close>

definition multiValuedFields :: "string list" where
  "multiValuedFields = [fields_beliefs, fields_worklangs]"

text \<open>
  The statement section of the survey: responses from 1 (strongly disagree) to 5
  (strongly agree), 0 for no response.
\<close>

definition statements :: "string list" where
  "statements =
     [fields_superexst, fields_superpers, fields_godrelate, fields_godspeaks,
      fields_bibletrue, fields_bibleusfl, fields_divpunish, fields_divreward,
      fields_universal, fields_humangood, fields_suffersin, fields_humancrea,
      fields_naturcrea]"

definition otherNums :: "string list" where
  "otherNums = [fields_progyears, fields_workyears]"

definition numericFields :: "string list" where
  "numericFields = statements @ otherNums"

definition religions :: "string list" where
  "religions = [''Christian'', ''Buddhist'', ''Jewish'', ''Muslim'', ''Pagan'', ''Hindu'']"

definition qualitativeModifiers :: "string list" where
  "qualitativeModifiers = [''Liberal'', ''Moderate'', ''Conservative'']"

section \<open>What the program takes from its host\<close>

text \<open>
  Three functions are the host's and are left open.  The first is the time value (the
  milliseconds since the epoch, or not-a-number) of the date that
  \<^verbatim>\<open>setFullYear(y, m, d)\<close> followed by \<^verbatim>\<open>setHours(H, M, S, 0)\<close> leaves in a
  \<^verbatim>\<open>Date\<close>, which depends on the time zone of the host.  The others are the
  conversions of a number and of a date to a string, which are only used when such a
  value is taken as a property name.
\<close>

record host =
  local_time :: "int \<Rightarrow> int \<Rightarrow> int \<Rightarrow> int \<Rightarrow> int \<Rightarrow> int \<Rightarrow> jsnum"
  number_to_string :: "jsnum \<Rightarrow> string"
  date_to_string :: "jsnum \<Rightarrow> string"

section \<open>The time format\<close>

text \<open>
  \<^verbatim>\<open>d3.time.format("%Y/%m/%d %I:%M:%S %p AST")\<close> is a parser of the d3 library
  (version 3), which is not part of the program.  Its \<^verbatim>\<open>parse\<close> is strict: it returns
  \<^verbatim>\<open>null\<close> unless the whole string matches the format, and a \<^verbatim>\<open>Date\<close> otherwise.  The
  library walks through the format.  A directive for a number takes the next four
  (the year) or two characters and reads white space and then digits at their start,
  at least one digit; a literal character of the format must be the next character;
  \<^verbatim>\<open>%p\<close> takes two characters that are \<^verbatim>\<open>am\<close> or \<^verbatim>\<open>pm\<close> in any case.  Nothing may be
  left of the string at the end.
\<close>

definition number_prefix :: "nat \<Rightarrow> string \<Rightarrow> (nat \<times> string) option" where
  "number_prefix w s =
     (let blanks = takeWhile is_space (take w s);
          ds = takeWhile is_digit (dropWhile is_space (take w s))
      in if ds = [] then None
         else Some (digits_value 10 ds, drop (length blanks + length ds) s))"

definition literal :: "char \<Rightarrow> string \<Rightarrow> string option" where
  "literal c s = (case s of [] \<Rightarrow> None | x # xs \<Rightarrow> if x = c then Some xs else None)"

definition am_pm :: "string \<Rightarrow> (nat \<times> string) option" where
  "am_pm s =
     (let w = toLowerCase (take 2 s)
      in if w = ''am'' then Some (0, drop 2 s)
         else if w = ''pm'' then Some (1, drop 2 s)
         else None)"

text \<open>
  The fields of a string that matches the format: year, number of the month, day,
  hour, minutes, seconds, and 0 for a time before noon or 1 for one after.
\<close>

definition timeFormat_fields :: "string \<Rightarrow> (nat \<times> nat \<times> nat \<times> nat \<times> nat \<times> nat \<times> nat) option" where
  "timeFormat_fields s0 =
     Option.bind (number_prefix 4 s0) (\<lambda>(y, s1).
     Option.bind (literal CHR ''/'' s1) (\<lambda>s2.
     Option.bind (number_prefix 2 s2) (\<lambda>(m, s3).
     Option.bind (literal CHR ''/'' s3) (\<lambda>s4.
     Option.bind (number_prefix 2 s4) (\<lambda>(d, s5).
     Option.bind (literal CHR '' '' s5) (\<lambda>s6.
     Option.bind (number_prefix 2 s6) (\<lambda>(hh, s7).
     Option.bind (literal CHR '':'' s7) (\<lambda>s8.
     Option.bind (number_prefix 2 s8) (\<lambda>(mm, s9).
     Option.bind (literal CHR '':'' s9) (\<lambda>s10.
     Option.bind (number_prefix 2 s10) (\<lambda>(ss, s11).
     Option.bind (literal CHR '' '' s11) (\<lambda>s12.
     Option.bind (am_pm s12) (\<lambda>(p, s13).
     Option.bind (literal CHR '' '' s13) (\<lambda>s14.
     Option.bind (literal CHR ''A'' s14) (\<lambda>s15.
     Option.bind (literal CHR ''S'' s15) (\<lambda>s16.
     Option.bind (literal CHR ''T'' s16) (\<lambda>s17.
     if s17 = [] then Some (y, m, d, hh, mm, ss, p) else None)))))))))))))))))"

text \<open>
  \<^verbatim>\<open>timeFormat.parse(x)\<close> for a string.  The library counts the months from 0, turns
  the hour of the twelve-hour clock into \<^verbatim>\<open>H % 12 + p * 12\<close>, and sets the fields of a
  date in the time zone of the host.
\<close>

definition timeFormat_parse :: "host \<Rightarrow> string \<Rightarrow> jsval" where
  "timeFormat_parse H x =
     (case timeFormat_fields x of
        None \<Rightarrow> Null
      | Some (y, m, d, hh, mm, ss, p) \<Rightarrow>
          Date (local_time H (int y) (int m - 1) (int d) (int (hh mod 12 + p * 12))
                  (int mm) (int ss)))"

section \<open>Raw records\<close>

text \<open>
  The columns of the survey file: the time stamp and the twenty-one questions.  The
  loader makes, for every line, an object with one property per column, holding the
  cell of the line as a string.
\<close>

definition columns :: "string list" where
  "columns =
     [''Timestamp'', fields_beliefs, fields_churchatt, fields_superexst, fields_superpers,
      fields_godrelate, fields_godspeaks, fields_bibletrue, fields_bibleusfl,
      fields_divpunish, fields_divreward, fields_universal, fields_humangood,
      fields_suffersin, fields_humancrea, fields_naturcrea, fields_favlang,
      fields_worklangs, fields_progyears, fields_workyears, fields_maxeducat,
      fields_feedback]"

fun is_string :: "jsval \<Rightarrow> bool" where
  "is_string (Str s) = True"
| "is_string v = False"

definition raw_record :: "obj \<Rightarrow> bool" where
  "raw_record d = list_all (\<lambda>k. is_string (get d k)) columns"

text \<open>The object of a line, from the cell of every column.\<close>

definition row_of_cells :: "(string \<Rightarrow> string) \<Rightarrow> obj" where
  "row_of_cells cell = map_of (map (\<lambda>k. (k, Str (cell k))) columns)"

section \<open>Predicates\<close>

text \<open>
  \<^verbatim>\<open>isReligious\<close> calls \<^verbatim>\<open>some\<close> on the beliefs of the row, a method of arrays
  only, with membership in the set \<^verbatim>\<open>religions\<close> as the test.
\<close>

definition isReligious :: "obj \<Rightarrow> error + bool" where
  "isReligious d =
     (case get d fields_beliefs of
        Arr xs \<Rightarrow> Inr (list_ex (\<lambda>x. x \<in> set religions) xs)
      | _ \<Rightarrow> Inl TypeError)"

text \<open>
  \<^verbatim>\<open>makeHasOpinion(belief)\<close> returns the function \<^verbatim>\<open>d \<mapsto> 0 < d[belief]\<close>; with a number
  on the left the comparison is numeric, on \<^verbatim>\<open>ToNumber\<close> of the field.
\<close>

definition makeHasOpinion :: "string \<Rightarrow> obj \<Rightarrow> bool" where
  "makeHasOpinion belief d = js_lt (Fin 0) (to_number (get d belief))"

section \<open>Normalising a row\<close>

text \<open>
  \<^verbatim>\<open>update(obj, field, f)\<close> is \<^verbatim>\<open>obj[field] = f(obj[field])\<close>: it writes into the
  object at the address it is given.  When \<^verbatim>\<open>f\<close> raises nothing is written.
\<close>

definition update ::
  "addr \<Rightarrow> string \<Rightarrow> (jsval \<Rightarrow> error + jsval) \<Rightarrow> store \<Rightarrow> (error + unit) \<times> store" where
  "update a field f h =
     (case f (get (h a) field) of
        Inl e \<Rightarrow> (Inl e, h)
      | Inr v \<Rightarrow> (Inr (), h(a := (h a)(field \<mapsto> v))))"

text \<open>
  \<^verbatim>\<open>str.split(/[;,]/)\<close>: the pieces between the separators, in order; a string
  without a separator, the empty one too, is its own single piece.
\<close>

fun split_on :: "(char \<Rightarrow> bool) \<Rightarrow> string \<Rightarrow> string list" where
  "split_on sep [] = [[]]"
| "split_on sep (c # cs) =
     (if sep c then [] # split_on sep cs
      else case split_on sep cs of
             [] \<Rightarrow> [[c]]
           | p # ps \<Rightarrow> (c # p) # ps)"

fun parseList :: "jsval \<Rightarrow> error + jsval" where
  "parseList (Str str) = Inr (Arr (split_on (\<lambda>c. c = CHR '';'' \<or> c = CHR '','') str))"
| "parseList v = Inl TypeError"

text \<open>The function \<^verbatim>\<open>function (x) { return +x; }\<close> of \<^verbatim>\<open>parseRow\<close>.\<close>

definition unary_plus :: "jsval \<Rightarrow> error + jsval" where
  "unary_plus x = Inr (Num (to_number x))"

text \<open>
  \<^verbatim>\<open>timeFormat.parse(x)\<close> for any value of a row (version 3.5 of the library).  The
  library reads the \<^verbatim>\<open>length\<close> of its argument, which raises on \<^verbatim>\<open>undefined\<close> and
  \<^verbatim>\<open>null\<close>, and then calls \<^verbatim>\<open>slice\<close> on it, which raises on a number and on a date.
  An array has both: the empty one gives \<^verbatim>\<open>null\<close> at once; of another the first four
  elements are taken and their string is read for the year, and the result is
  \<^verbatim>\<open>null\<close> when there is no number or when the number has as many characters as the
  array has elements; else the next step calls \<^verbatim>\<open>charCodeAt\<close> on the array, which
  raises.
\<close>

fun timeFormat_parse_call :: "host \<Rightarrow> jsval \<Rightarrow> error + jsval" where
  "timeFormat_parse_call H (Str x) = Inr (timeFormat_parse H x)"
| "timeFormat_parse_call H (Arr xs) =
     (let j = join (take 4 xs)
      in case number_prefix (length j) j of
           None \<Rightarrow> Inr Null
         | Some (y, rest) \<Rightarrow>
             if length xs \<le> length j - length rest then Inr Null else Inl TypeError)"
| "timeFormat_parse_call H v = Inl TypeError"

text \<open>\<^verbatim>\<open>Array.prototype.forEach\<close> with a callback that works on the store.\<close>

fun forEach ::
  "'a list \<Rightarrow> ('a \<Rightarrow> store \<Rightarrow> (error + unit) \<times> store) \<Rightarrow> store \<Rightarrow> (error + unit) \<times> store" where
  "forEach [] f h = (Inr (), h)"
| "forEach (x # xs) f h =
     (case f x h of
        (Inl e, h') \<Rightarrow> (Inl e, h')
      | (Inr u, h') \<Rightarrow> forEach xs f h')"

text \<open>
  \<^verbatim>\<open>parseRow(d)\<close> works on the object at \<open>d\<close> and returns \<open>d\<close>.  A raise ends it where
  it stands, with the writes made so far in the store.
\<close>

definition parseRow :: "host \<Rightarrow> addr \<Rightarrow> store \<Rightarrow> (error + addr) \<times> store" where
  "parseRow H d h =
     (case forEach multiValuedFields (\<lambda>field. update d field parseList) h of
        (Inl e, h1) \<Rightarrow> (Inl e, h1)
      | (Inr u1, h1) \<Rightarrow>
     (case forEach numericFields (\<lambda>field. update d field unary_plus) h1 of
        (Inl e, h2) \<Rightarrow> (Inl e, h2)
      | (Inr u2, h2) \<Rightarrow>
     (case update d ''Timestamp'' (timeFormat_parse_call H) h2 of
        (Inl e, h3) \<Rightarrow> (Inl e, h3)
      | (Inr u3, h3) \<Rightarrow>
     (case update d fields_favlang parseLang h3 of
        (Inl e, h4) \<Rightarrow> (Inl e, h4)
      | (Inr u4, h4) \<Rightarrow> (Inr d, h4)))))"

text \<open>
  The loader \<^verbatim>\<open>d3.csv(url, parseRow, callback)\<close> makes one object per line of the
  file, calls \<^verbatim>\<open>parseRow\<close> on it and collects what the calls return into the array
  \<^verbatim>\<open>rows\<close>.  \<open>normalize H raw\<close> is the object so collected for a line whose object is
  \<open>raw\<close>; a raise of \<^verbatim>\<open>parseRow\<close> ends the load.
\<close>

definition normalize :: "host \<Rightarrow> obj \<Rightarrow> error + obj" where
  "normalize H raw =
     (case parseRow H 0 (\<lambda>a. raw) of
        (Inl e, h) \<Rightarrow> Inl e
      | (Inr d, h) \<Rightarrow> Inr (h d))"

fun normalize_all :: "host \<Rightarrow> obj list \<Rightarrow> error + obj list" where
  "normalize_all H [] = Inr []"
| "normalize_all H (raw # raws) =
     (case normalize H raw of
        Inl e \<Rightarrow> Inl e
      | Inr d \<Rightarrow> (case normalize_all H raws of Inl e \<Rightarrow> Inl e | Inr ds \<Rightarrow> Inr (d # ds)))"

section \<open>The page\<close>

text \<open>
  What the program appends to the element \<^verbatim>\<open>#viz-area\<close>.  An \<^verbatim>\<open>svg\<close> element holds
  one \<^verbatim>\<open>path\<close> per layer of the stack, named here by the key of its group.  A
  \<^verbatim>\<open>section\<close> element holds one \<^verbatim>\<open>div\<close> per datum, in document order: three
  \<^verbatim>\<open>span\<close>s whose widths are the three fractions times 100 pixels, and a fourth with
  the language as its text.  Scales, layout and path geometry are the library's.
\<close>

datatype element = Svg "bool list" | Section "(string \<times> jsnum list) list"

section \<open>The response stream\<close>

text \<open>
  \<^verbatim>\<open>d3.nest().key(predicates.isReligious)\<close> calls the predicate on every row, in
  order, and makes one group per distinct result, in order of first appearance.  What
  follows in the library is not followed here: the second key of the nesting, the hour
  of the time stamp in the time zone of the host, and the stack layout, which raises
  when a later group has fewer hours than the first.
\<close>

fun key_all :: "obj list \<Rightarrow> error + bool list" where
  "key_all [] = Inr []"
| "key_all (d # ds) =
     (case isReligious d of
        Inl e \<Rightarrow> Inl e
      | Inr k \<Rightarrow> (case key_all ds of Inl e \<Rightarrow> Inl e | Inr ks \<Rightarrow> Inr (k # ks)))"

fun first_appearances :: "'a list \<Rightarrow> 'a list" where
  "first_appearances [] = []"
| "first_appearances (k # ks) = k # first_appearances (filter (\<lambda>x. x \<noteq> k) ks)"

definition renderResponseStream :: "obj list \<Rightarrow> element list \<Rightarrow> error + element list" where
  "renderResponseStream rows viz_area =
     (case key_all rows of
        Inl e \<Rightarrow> Inl e
      | Inr ks \<Rightarrow> Inr (viz_area @ [Svg (first_appearances ks)]))"

section \<open>The agreement table\<close>

text \<open>
  The accumulator of the reduction is an object literal \<^verbatim>\<open>{}\<close> used as a table from
  languages to arrays of three counters.  The table is kept as the list of its own
  entries in the order of their creation.  A JavaScript array has fewer than
  \<open>2\<^sup>3\<^sup>2\<close> elements, so every counter stays an integer that binary64 holds exactly.
\<close>

type_synonym stats = "(string \<times> nat list) list"

text \<open>
  The names every object inherits from \<^verbatim>\<open>Object.prototype\<close>.  For such a name
  \<^verbatim>\<open>m[lang]\<close> is a function or an object, which is truthy: no array of counters is
  made for it, the increment lands on a property of that inherited value, and
  \<^verbatim>\<open>d3.sum\<close> of it is 0, so the entry never passes the filter on the total.
\<close>

definition object_prototype_keys :: "string list" where
  "object_prototype_keys =
     [''constructor'', ''toString'', ''toLocaleString'', ''valueOf'', ''hasOwnProperty'',
      ''isPrototypeOf'', ''propertyIsEnumerable'', ''__proto__'', ''__defineGetter__'',
      ''__defineSetter__'', ''__lookupGetter__'', ''__lookupSetter__'']"

text \<open>A value used as a property name is turned into a string.\<close>

fun property_key :: "host \<Rightarrow> jsval \<Rightarrow> string" where
  "property_key H Undefined = ''undefined''"
| "property_key H Null = ''null''"
| "property_key H (Str s) = s"
| "property_key H (Num n) = number_to_string H n"
| "property_key H (Arr xs) = join xs"
| "property_key H (Date t) = date_to_string H t"

text \<open>
  \<^verbatim>\<open>v == n\<close> for a number \<open>n\<close>: never for \<^verbatim>\<open>undefined\<close> and \<^verbatim>\<open>null\<close>; a string is
  converted to a number; an array and a date are converted to their strings first.
\<close>

fun loose_eq_number :: "host \<Rightarrow> jsval \<Rightarrow> jsnum \<Rightarrow> bool" where
  "loose_eq_number H Undefined n = False"
| "loose_eq_number H Null n = False"
| "loose_eq_number H (Str s) n = js_num_eq (string_to_number s) n"
| "loose_eq_number H (Num m) n = js_num_eq m n"
| "loose_eq_number H (Arr xs) n = js_num_eq (string_to_number (join xs)) n"
| "loose_eq_number H (Date t) n = js_num_eq (string_to_number (date_to_string H t)) n"

text \<open>\<^verbatim>\<open>beliefValue == 3 ? 1 : (beliefValue < 3 ? 0 : 2)\<close>\<close>

definition bin_of :: "host \<Rightarrow> jsval \<Rightarrow> nat" where
  "bin_of H beliefValue =
     (if loose_eq_number H beliefValue (Fin 3) then 1
      else if js_lt (to_number beliefValue) (Fin 3) then 0 else 2)"

text \<open>\<^verbatim>\<open>m[lang] = m[lang] || [0, 0, 0]\<close>\<close>

definition ensure :: "stats \<Rightarrow> string \<Rightarrow> stats" where
  "ensure m lang = (if lang \<in> fst ` set m then m else m @ [(lang, [0, 0, 0])])"

text \<open>\<^verbatim>\<open>m[lang][bin]++\<close>\<close>

definition increment :: "stats \<Rightarrow> string \<Rightarrow> nat \<Rightarrow> stats" where
  "increment m lang bin =
     map (\<lambda>(k, v). if k = lang then (k, v[bin := v ! bin + 1]) else (k, v)) m"

text \<open>The callback of the reduction.\<close>

definition count_row :: "host \<Rightarrow> stats \<Rightarrow> obj \<Rightarrow> stats" where
  "count_row H m row =
     (let beliefValue = get row fields_humangood;
          lang = property_key H (get row fields_favlang)
      in if lang \<in> set object_prototype_keys then m
         else increment (ensure m lang) lang (bin_of H beliefValue))"

definition agreement_stats :: "host \<Rightarrow> obj list \<Rightarrow> stats" where
  "agreement_stats H rows =
     foldl (count_row H) [] (filter (makeHasOpinion fields_humangood) rows)"

text \<open>A well-formed table: no language twice, and three counters for every language.\<close>

definition wf_stats :: "stats \<Rightarrow> bool" where
  "wf_stats m = (distinct (map fst m) \<and> list_all (\<lambda>(k, v). length v = 3) m)"

text \<open>The total of the counters of a language, 0 when the table has none for it.\<close>

definition total_of :: "stats \<Rightarrow> string \<Rightarrow> nat" where
  "total_of m key = (case map_of m key of None \<Rightarrow> 0 | Some v \<Rightarrow> sum_list v)"

text \<open>
  \<^verbatim>\<open>x / sum\<close> for two counters: the quotient of two integers that binary64 holds
  exactly, rounded.  The divisor is above 3 where the program divides.
\<close>

definition divide_counts :: "nat \<Rightarrow> nat \<Rightarrow> jsnum" where
  "divide_counts x n = round_double (of_nat x / of_nat n)"

text \<open>
  \<^verbatim>\<open>d3.map(stats).entries()\<close> visits the table with \<^verbatim>\<open>for ... in\<close>.  The host
  enumerates the keys that are array indices first, in ascending order, and then the
  other keys in the order of their creation.  An array index is the decimal form,
  without leading zeros, of an integer below \<open>2\<^sup>3\<^sup>2 - 1\<close>.
\<close>

definition array_index :: "string \<Rightarrow> nat option" where
  "array_index k =
     (if k \<noteq> [] \<and> list_all is_digit k \<and> (hd k \<noteq> CHR ''0'' \<or> k = ''0'')
         \<and> digits_value 10 k < 4294967295
      then Some (digits_value 10 k) else None)"

definition entries :: "(string \<times> 'a) list \<Rightarrow> (string \<times> 'a) list" where
  "entries m =
     sort_key (\<lambda>(k, v). case array_index k of None \<Rightarrow> 0 | Some i \<Rightarrow> i)
       (filter (\<lambda>(k, v). array_index k \<noteq> None) m)
     @ filter (\<lambda>(k, v). array_index k = None) m"

text \<open>
  The entries of the table with a total above 3, each with its counters divided by
  their total: the array \<^verbatim>\<open>data\<close> that is bound to the \<^verbatim>\<open>div\<close>s.
\<close>

definition agreement_data :: "host \<Rightarrow> obj list \<Rightarrow> (string \<times> jsnum list) list" where
  "agreement_data H rows =
     map (\<lambda>(key, v). (key, map (\<lambda>x. divide_counts x (sum_list v)) v))
       (filter (\<lambda>(key, v). 3 < sum_list v) (entries (agreement_stats H rows)))"

text \<open>\<^verbatim>\<open>d3.descending(a, b)\<close> is \<^verbatim>\<open>b < a ? -1 : b > a ? 1 : b >= a ? 0 : NaN\<close>.\<close>

definition d3_descending :: "jsnum \<Rightarrow> jsnum \<Rightarrow> jsnum" where
  "d3_descending a b =
     (if js_lt b a then Fin (- 1)
      else if js_lt a b then Fin 1
      else if js_ge b a then Fin 0
      else NaN)"

text \<open>
  \<^verbatim>\<open>selection.sort(comparator)\<close> sorts the \<^verbatim>\<open>div\<close>s by their data with the host's
  array sort and puts them into the document in that order.  The sort is an insertion
  sort here: an element goes behind another when the comparator gives a positive
  number for the pair, and elements that compare equal keep their order.
\<close>

fun insert_by :: "('a \<Rightarrow> 'a \<Rightarrow> jsnum) \<Rightarrow> 'a \<Rightarrow> 'a list \<Rightarrow> 'a list" where
  "insert_by cmp x [] = [x]"
| "insert_by cmp x (y # ys) =
     (if js_lt (Fin 0) (cmp x y) then y # insert_by cmp x ys else x # y # ys)"

definition sort_by :: "('a \<Rightarrow> 'a \<Rightarrow> jsnum) \<Rightarrow> 'a list \<Rightarrow> 'a list" where
  "sort_by cmp xs = foldr (insert_by cmp) xs []"

text \<open>\<^verbatim>\<open>a.value[2]\<close>, which is \<^verbatim>\<open>undefined\<close> past the end of the array.\<close>

definition agree :: "string \<times> jsnum list \<Rightarrow> jsnum" where
  "agree a = (if 2 < length (snd a) then snd a ! 2 else NaN)"

definition renderAgreementTable :: "host \<Rightarrow> obj list \<Rightarrow> element list \<Rightarrow> element list" where
  "renderAgreementTable H rows viz_area =
     viz_area @ [Section (sort_by (\<lambda>a b. d3_descending (agree a) (agree b)) (agreement_data H rows))]"

section \<open>The load\<close>

text \<open>
  The callback of \<^verbatim>\<open>d3.csv\<close> gets the array of normalised rows, or no array when the
  load failed.  An array is truthy, an empty one too.
\<close>

definition on_load :: "obj list option \<Rightarrow> element list \<Rightarrow> error + element list" where
  "on_load rows viz_area =
     (case rows of
        None \<Rightarrow> Inr viz_area
      | Some rs \<Rightarrow> renderResponseStream rs viz_area)"

section \<open>Example data\<close>

text \<open>
  A host in the time zone UTC: the days from the epoch to the first day of a month
  of the proleptic Gregorian calendar, and from them the time value of a date.  A
  month outside 0 to 11 is counted into the year, and days and hours past their range
  simply add up.
\<close>

definition days_from_civil :: "int \<Rightarrow> int \<Rightarrow> int" where
  "days_from_civil y m =
     (let y' = (if m \<le> 2 then y - 1 else y);
          era = y' div 400;
          yoe = y' - era * 400;
          doy = (153 * (if 2 < m then m - 3 else m + 9) + 2) div 5;
          doe = yoe * 365 + yoe div 4 - yoe div 100 + doy
      in era * 146097 + doe - 719468)"

definition utc_time :: "int \<Rightarrow> int \<Rightarrow> int \<Rightarrow> int \<Rightarrow> int \<Rightarrow> int \<Rightarrow> jsnum" where
  "utc_time y m d hh mm ss =
     Fin (of_int
       (((((days_from_civil (y + m div 12) (m mod 12 + 1) + d - 1) * 24 + hh) * 60 + mm) * 60
          + ss) * 1000))"

text \<open>
  The conversions to strings of the example host give the strings of not-a-number and
  of an invalid date; no example takes a number or a date as a property name.
\<close>

definition example_host :: host where
  "example_host =
     \<lparr>local_time = utc_time,
      number_to_string = (\<lambda>n. ''NaN''),
      date_to_string = (\<lambda>t. ''Invalid Date'')\<rparr>"

text \<open>
  A line of the file with the given beliefs, response to the statement
  \<^verbatim>\<open>fields.humangood\<close> and favourite language, a time stamp, and every other cell
  empty.
\<close>

definition example_cells :: "string \<Rightarrow> string \<Rightarrow> string \<Rightarrow> string \<Rightarrow> string" where
  "example_cells b g l k =
     (if k = fields_beliefs then b
      else if k = fields_humangood then g
      else if k = fields_favlang then l
      else if k = ''Timestamp'' then ''2014/04/25 11:44:09 AM AST''
      else [])"

definition example_row :: "string \<Rightarrow> string \<Rightarrow> string \<Rightarrow> obj" where
  "example_row b g l = row_of_cells (example_cells b g l)"

text \<open>
  A line of the file with malformed cells: a response that is not a number, a time
  stamp that does not match the format, a language with blanks around it that no
  alias pattern matches, and every other cell empty.
\<close>

definition malformed_cells :: "string \<Rightarrow> string" where
  "malformed_cells k =
     (if k = fields_humangood then ''n/a''
      else if k = fields_favlang then ''  Ruby ''
      else if k = ''Timestamp'' then ''25 April 2014''
      else [])"

definition malformed_row :: obj where
  "malformed_row = row_of_cells malformed_cells"

text \<open>A raw record with the given three cells, whatever its other cells hold.\<close>

definition survey_row :: "string \<Rightarrow> string \<Rightarrow> string \<Rightarrow> obj \<Rightarrow> bool" where
  "survey_row b g l r =
     (raw_record r \<and> get r fields_beliefs = Str b \<and> get r fields_humangood = Str g
      \<and> get r fields_favlang = Str l)"

text \<open>A normalised row, cut down to the three fields the renderers read.\<close>

definition example_normalized :: "string list \<Rightarrow> rat \<Rightarrow> string \<Rightarrow> obj" where
  "example_normalized b g l =
     [fields_beliefs \<mapsto> Arr b, fields_humangood \<mapsto> Num (Fin g), fields_favlang \<mapsto> Str l]"

text \<open>
  The four rows of the worked example of the specification after normalisation, and
  the same with four more respondents, who favour another language and all agree.
\<close>

definition example_rows :: "obj list" where
  "example_rows =
     [example_normalized [''Christian'', ''Liberal''] 4 ''go'',
      example_normalized [''Atheist''] 2 ''go'',
      example_normalized [''Christian''] 3 ''go'',
      example_normalized [''Christian''] 5 ''go'']"

definition example_rows_two :: "obj list" where
  "example_rows_two =
     example_rows
     @ [example_normalized [''Atheist''] 5 ''ruby'',
        example_normalized [''Atheist''] 4 ''ruby'',
        example_normalized [''Buddhist''] 5 ''ruby'',
        example_normalized [''Atheist''] 4 ''ruby'']"

section \<open>Properties of the matcher\<close>

text \<open>
  A derivative matches what is left of a match after its first character, so
  \<open>js_match\<close> is true exactly when some substring is matched by the pattern.
\<close>

lemma nullable_matched: "nullable r \<longleftrightarrow> [] \<in> matched r"
  by (induction r) (auto intro: repeated.none)

lemma repeated_cons:
  "c # w \<in> repeated A \<longleftrightarrow> (\<exists>u v. w = u @ v \<and> c # u \<in> A \<and> v \<in> repeated A)"
proof
  assume "c # w \<in> repeated A"
  then show "\<exists>u v. w = u @ v \<and> c # u \<in> A \<and> v \<in> repeated A"
  proof (induction "c # w" rule: repeated.induct)
    case (more u v)
    then show ?case
      by (cases u) auto
  qed
next
  assume "\<exists>u v. w = u @ v \<and> c # u \<in> A \<and> v \<in> repeated A"
  then obtain u v where "w = u @ v" "c # u \<in> A" "v \<in> repeated A" by blast
  then show "c # w \<in> repeated A"
    using repeated.more[of "c # u" A v] by simp
qed

lemma deriv_matched: "w \<in> matched (deriv c r) \<longleftrightarrow> c # w \<in> matched r"
proof (induction r arbitrary: w)
  case (Cat r s)
  have "c # w \<in> matched (Cat r s) \<longleftrightarrow>
        ([] \<in> matched r \<and> c # w \<in> matched s)
        \<or> (\<exists>u v. w = u @ v \<and> c # u \<in> matched r \<and> v \<in> matched s)"
    by (auto simp: Cons_eq_append_conv)
  with Cat show ?case
    by (auto simp: nullable_matched)
next
  case (Star r)
  then show ?case
    by (auto simp: repeated_cons)
next
  case (Plus r)
  have "c # w \<in> matched (Plus r) \<longleftrightarrow>
        ([] \<in> matched r \<and> c # w \<in> repeated (matched r))
        \<or> (\<exists>u v. w = u @ v \<and> c # u \<in> matched r \<and> v \<in> repeated (matched r))"
    by (auto simp: Cons_eq_append_conv)
  moreover have "c # w \<in> repeated (matched r)
        \<longleftrightarrow> (\<exists>u v. w = u @ v \<and> c # u \<in> matched r \<and> v \<in> repeated (matched r))"
    by (rule repeated_cons)
  ultimately show ?case
    using Plus by auto
qed auto

lemma match_prefix_matched:
  "match_prefix r s \<longleftrightarrow> (\<exists>u v. s = u @ v \<and> u \<in> matched r)"
proof (induction s arbitrary: r)
  case Nil
  then show ?case by (simp add: nullable_matched)
next
  case (Cons c cs)
  have "(\<exists>u v. c # cs = u @ v \<and> u \<in> matched r)
        \<longleftrightarrow> [] \<in> matched r \<or> (\<exists>u v. cs = u @ v \<and> c # u \<in> matched r)"
    by (auto simp: Cons_eq_append_conv)
  with Cons show ?case
    by (simp add: nullable_matched deriv_matched)
qed

lemma js_match_matched:
  "js_match s r \<longleftrightarrow> (\<exists>p u v. s = p @ u @ v \<and> u \<in> matched r)"
proof (induction s)
  case Nil
  then show ?case by (simp add: nullable_matched)
next
  case (Cons c cs)
  have "(\<exists>p u v. c # cs = p @ u @ v \<and> u \<in> matched r)
        \<longleftrightarrow> (\<exists>u v. c # cs = u @ v \<and> u \<in> matched r)
            \<or> (\<exists>p u v. cs = p @ u @ v \<and> u \<in> matched r)"
  proof
    assume "\<exists>p u v. c # cs = p @ u @ v \<and> u \<in> matched r"
    then obtain p u v where e: "c # cs = p @ u @ v" "u \<in> matched r" by blast
    show "(\<exists>u v. c # cs = u @ v \<and> u \<in> matched r)
            \<or> (\<exists>p u v. cs = p @ u @ v \<and> u \<in> matched r)"
    proof (cases p)
      case Nil
      with e show ?thesis by auto
    next
      case (Cons a p')
      with e have "cs = p' @ u @ v" by simp
      with e(2) show ?thesis by blast
    qed
  next
    assume "(\<exists>u v. c # cs = u @ v \<and> u \<in> matched r)
            \<or> (\<exists>p u v. cs = p @ u @ v \<and> u \<in> matched r)"
    then show "\<exists>p u v. c # cs = p @ u @ v \<and> u \<in> matched r"
    proof
      assume "\<exists>u v. c # cs = u @ v \<and> u \<in> matched r"
      then obtain u v where "c # cs = [] @ u @ v" "u \<in> matched r" by auto
      then show ?thesis by blast
    next
      assume "\<exists>p u v. cs = p @ u @ v \<and> u \<in> matched r"
      then obtain p u v where "c # cs = (c # p) @ u @ v" "u \<in> matched r" by auto
      then show ?thesis by blast
    qed
  qed
  with Cons show ?case
    by (simp only: js_match.simps match_prefix_matched)
qed

lemma matched_lits: "matched (lits s) = {s}"
  by (induction s) auto

lemma js_match_substring:
  assumes "\<And>u. u \<in> matched r \<longleftrightarrow> (\<exists>w. u = k @ w \<and> P w)" "P []"
  shows "js_match x r \<longleftrightarrow> (\<exists>p v. x = p @ k @ v)"
proof
  assume "js_match x r"
  then obtain p u v where "x = p @ u @ v" "u \<in> matched r"
    by (auto simp: js_match_matched)
  with assms(1) obtain w where "x = p @ k @ (w @ v)" by auto
  then show "\<exists>p v. x = p @ k @ v" by blast
next
  assume "\<exists>p v. x = p @ k @ v"
  then obtain p v where x: "x = p @ k @ v" by blast
  have "k \<in> matched r" using assms by auto
  with x show "js_match x r" by (auto simp: js_match_matched)
qed

lemma repeated_any:
  "w \<in> repeated {[c] | c. \<not> line_terminator c} \<longleftrightarrow> (\<forall>c \<in> set w. \<not> line_terminator c)"
proof
  assume "w \<in> repeated {[c] | c. \<not> line_terminator c}"
  then show "\<forall>c \<in> set w. \<not> line_terminator c"
    by (induction rule: repeated.induct) auto
next
  assume "\<forall>c \<in> set w. \<not> line_terminator c"
  then show "w \<in> repeated {[c] | c. \<not> line_terminator c}"
  proof (induction w)
    case Nil
    show ?case by (rule repeated.none)
  next
    case (Cons c w)
    then have "[c] \<in> {[c] | c. \<not> line_terminator c}" "w \<in> repeated {[c] | c. \<not> line_terminator c}"
      by auto
    from repeated.more[OF this] show ?case by simp
  qed
qed

lemma pattern_go:
  "js_match x (Cat (lits ''go'') (Alt Empty (lits ''lang''))) \<longleftrightarrow> (\<exists>p v. x = p @ ''go'' @ v)"
  by (rule js_match_substring[where P = "\<lambda>w. w = [] \<or> w = ''lang''"])
    (auto simp: matched_lits simp del: lits.simps)

lemma pattern_python:
  "js_match x (Cat (lits ''pyth'') (Star AnyChar)) \<longleftrightarrow> (\<exists>p v. x = p @ ''pyth'' @ v)"
  by (rule js_match_substring[where P = "\<lambda>w. \<forall>c \<in> set w. \<not> line_terminator c"])
    (auto simp: matched_lits repeated_any simp del: lits.simps)

lemma pattern_cpp:
  "js_match x (Cat (Lit CHR ''c'') (Plus (Lit CHR ''+''))) \<longleftrightarrow> (\<exists>p v. x = p @ ''c+'' @ v)"
proof (rule js_match_substring[where P = "\<lambda>w. w \<in> repeated {''+''}"])
  show "u \<in> matched (Cat (Lit CHR ''c'') (Plus (Lit CHR ''+'')))
          \<longleftrightarrow> (\<exists>w. u = ''c+'' @ w \<and> w \<in> repeated {''+''})" for u
    by auto
  show "[] \<in> repeated {''+''}" by (rule repeated.none)
qed

lemma js_match_Alt: "js_match x (Alt r s) \<longleftrightarrow> js_match x r \<or> js_match x s"
  unfolding js_match_matched by (simp only: matched.simps Un_iff) blast

lemma js_match_lits: "js_match x (lits k) \<longleftrightarrow> (\<exists>p v. x = p @ k @ v)"
  by (rule js_match_substring[where P = "\<lambda>w. w = []"]) (simp_all add: matched_lits)

lemma pattern_csharp:
  "js_match x (Alt (lits ''c#'') (lits ''.net''))
     \<longleftrightarrow> (\<exists>p v. x = p @ ''c#'' @ v) \<or> (\<exists>p v. x = p @ ''.net'' @ v)"
  by (simp only: js_match_Alt js_match_lits)

lemma pattern_objective_c:
  "js_match x (Cat (lits ''objective'') (Cat (Star AnyChar) (Lit CHR ''c'')))
     \<longleftrightarrow> (\<exists>p m v. x = p @ ''objective'' @ m @ ''c'' @ v \<and> (\<forall>c \<in> set m. \<not> line_terminator c))"
proof -
  have m: "u \<in> matched (Cat (lits ''objective'') (Cat (Star AnyChar) (Lit CHR ''c'')))
          \<longleftrightarrow> (\<exists>m. u = ''objective'' @ m @ ''c'' \<and> (\<forall>c \<in> set m. \<not> line_terminator c))" for u
    by (auto simp: matched_lits repeated_any simp del: lits.simps)
  show ?thesis
  proof
    assume "js_match x (Cat (lits ''objective'') (Cat (Star AnyChar) (Lit CHR ''c'')))"
    then obtain p u v where "x = p @ u @ v"
      "u \<in> matched (Cat (lits ''objective'') (Cat (Star AnyChar) (Lit CHR ''c'')))"
      unfolding js_match_matched by blast
    with m obtain k where "x = p @ (''objective'' @ k @ ''c'') @ v" "\<forall>c \<in> set k. \<not> line_terminator c"
      by auto
    then have "x = p @ ''objective'' @ k @ ''c'' @ v \<and> (\<forall>c \<in> set k. \<not> line_terminator c)"
      by simp
    then show "\<exists>p m v. x = p @ ''objective'' @ m @ ''c'' @ v \<and> (\<forall>c \<in> set m. \<not> line_terminator c)"
      by blast
  next
    assume "\<exists>p m v. x = p @ ''objective'' @ m @ ''c'' @ v \<and> (\<forall>c \<in> set m. \<not> line_terminator c)"
    then obtain p k v where x: "x = p @ ''objective'' @ k @ ''c'' @ v"
      and k: "\<forall>c \<in> set k. \<not> line_terminator c" by blast
    from k m have "''objective'' @ k @ ''c'' \<in> matched (Cat (lits ''objective'') (Cat (Star AnyChar) (Lit CHR ''c'')))"
      by blast
    moreover from x have "x = p @ (''objective'' @ k @ ''c'') @ v" by simp
    ultimately show "js_match x (Cat (lits ''objective'') (Cat (Star AnyChar) (Lit CHR ''c'')))"
      unfolding js_match_matched by blast
  qed
qed

text \<open>So \<^verbatim>\<open>parseLang\<close> looks for substrings of the trimmed, lower-cased input.\<close>

lemma parseLang_string_substrings:
  "parseLang_string x =
     (let y = toLowerCase (trim x)
      in if \<exists>p v. y = p @ ''c+'' @ v then ''c++''
         else if \<exists>p m v. y = p @ ''objective'' @ m @ ''c'' @ v
                   \<and> (\<forall>c \<in> set m. \<not> line_terminator c) then ''objective-c''
         else if \<exists>p v. y = p @ ''go'' @ v then ''go''
         else if \<exists>p v. y = p @ ''pyth'' @ v then ''python''
         else if (\<exists>p v. y = p @ ''c#'' @ v) \<or> (\<exists>p v. y = p @ ''.net'' @ v) then ''c#''
         else y)"
  by (simp only: parseLang_string_def langPatterns_def first_match.simps Let_def
      pattern_cpp pattern_objective_c pattern_go pattern_python pattern_csharp)


section \<open>Properties of the language normaliser\<close>

lemma toLowerCase_char_idem: "toLowerCase_char (toLowerCase_char c) = toLowerCase_char c"
  by (simp add: toLowerCase_char_def Let_def)

lemma is_space_toLowerCase_char: "is_space (toLowerCase_char c) = is_space c"
  by (simp add: toLowerCase_char_def Let_def is_space_def)

lemma toLowerCase_idem: "toLowerCase (toLowerCase s) = toLowerCase s"
  by (simp add: toLowerCase_def toLowerCase_char_idem)

lemma dropWhile_space_lower:
  "dropWhile is_space (toLowerCase s) = toLowerCase (dropWhile is_space s)"
  by (induction s) (simp_all add: toLowerCase_def is_space_toLowerCase_char)

lemma trim_toLowerCase: "trim (toLowerCase s) = toLowerCase (trim s)"
proof -
  have r: "rev (toLowerCase t) = toLowerCase (rev t)" for t
    by (simp add: toLowerCase_def rev_map)
  show ?thesis
    by (simp add: trim_def dropWhile_space_lower r)
qed

lemma dropWhile_twice: "dropWhile P (dropWhile P s) = dropWhile P s"
  by (induction s) simp_all

lemma dropWhile_front_kept:
  "dropWhile P (rev (dropWhile P (rev (dropWhile P s)))) = rev (dropWhile P (rev (dropWhile P s)))"
proof (cases "dropWhile P s")
  case Nil
  show ?thesis unfolding Nil by simp
next
  case (Cons c cs)
  then have c: "\<not> P c"
    by (metis hd_dropWhile list.distinct(1) list.sel(1))
  define t where "t = dropWhile P (rev cs)"
  have "rev (dropWhile P (rev (c # cs))) = c # rev t" if "t \<noteq> []"
    using that by (simp add: t_def dropWhile_append)
  moreover have "rev (dropWhile P (rev (c # cs))) = [c]" if "t = []"
  proof -
    from that have "\<forall>x\<in>set (rev cs). P x"
      by (simp add: t_def dropWhile_eq_Nil_conv)
    then show ?thesis using c by (simp add: dropWhile_append)
  qed
  ultimately show ?thesis using c Cons by (cases "t = []") simp_all
qed

lemma trim_idem: "trim (trim s) = trim s"
  by (simp add: trim_def dropWhile_front_kept dropWhile_twice)

lemma first_match_cases:
  "first_match ps x = x \<or> first_match ps x \<in> fst ` set ps"
  by (induction ps x rule: first_match.induct) auto

lemma first_match_fixed:
  "first_match ps x \<notin> fst ` set ps \<Longrightarrow> \<forall>(lang, r) \<in> set ps. \<not> js_match x r"
  by (induction ps x rule: first_match.induct) (auto split: if_splits)

lemma parseLang_string_tags:
  "parseLang_string ''c++'' = ''c++''"
  "parseLang_string ''objective-c'' = ''objective-c''"
  "parseLang_string ''go'' = ''go''"
  "parseLang_string ''python'' = ''python''"
  "parseLang_string ''c#'' = ''c#''"
  by code_simp+

lemma parseLang_string_idem: "parseLang_string (parseLang_string x) = parseLang_string x"
proof -
  define y where "y = toLowerCase (trim x)"
  have y: "toLowerCase (trim y) = y"
    by (simp add: y_def trim_toLowerCase trim_idem toLowerCase_idem)
  consider (pass) "first_match langPatterns y = y"
    | (tag) "first_match langPatterns y \<in> fst ` set langPatterns"
    using first_match_cases by blast
  then show ?thesis
  proof cases
    case pass
    then show ?thesis
      by (simp add: parseLang_string_def y flip: y_def)
  next
    case tag
    then have "parseLang_string x \<in> {''c++'', ''objective-c'', ''go'', ''python'', ''c#''}"
      by (simp add: parseLang_string_def langPatterns_def flip: y_def)
    then show ?thesis
      using parseLang_string_tags by auto
  qed
qed

section \<open>Properties of rounding\<close>

lemma pow2_powi: "pow2 e = 2 powi e"
  by (simp add: pow2_def power_int_def inverse_eq_divide power_one_over)

lemma pow2_pos: "0 < pow2 e"
  by (simp add: pow2_powi)

lemma pow2_add: "pow2 (a + b) = pow2 a * pow2 b"
  by (simp add: pow2_powi power_int_add)

lemma pow2_mono: "a \<le> b \<Longrightarrow> pow2 a \<le> pow2 b"
  by (simp add: pow2_powi power_int_increasing)

lemma round_half_even_error: "\<bar>of_int (round_half_even x) - x\<bar> \<le> 1 / 2"
proof -
  have "of_int \<lfloor>x\<rfloor> \<le> x" "x < of_int \<lfloor>x\<rfloor> + 1"
    by linarith+
  then show ?thesis
    by (auto simp: round_half_even_def Let_def)
qed

lemma doublings_reach:
  "0 < q \<Longrightarrow> doublings n q = k \<Longrightarrow> k \<le> n \<and> (k = n \<or> 1 \<le> q * 2 ^ k)"
proof (induction n q arbitrary: k rule: doublings.induct)
  case (1 q)
  then show ?case by simp
next
  case (2 n q)
  show ?case
  proof (cases "1 \<le> q")
    case True
    with 2 show ?thesis by simp
  next
    case False
    define j where "j = doublings n (2 * q)"
    from False 2(3) have k: "k = Suc j" by (simp add: j_def)
    from 2(1)[OF False _ j_def[symmetric]] 2(2)
    have "j \<le> n \<and> (j = n \<or> 1 \<le> 2 * q * 2 ^ j)" by simp
    then show ?thesis by (auto simp: k mult_ac)
  qed
qed

lemma binary_exponent_small:
  assumes "0 < q" "q \<le> 1"
  shows "binary_exponent q \<le> 0 \<and> - 1022 \<le> binary_exponent q
         \<and> (binary_exponent q = - 1022 \<or> pow2 (binary_exponent q) \<le> q)"
proof (cases "q = 1")
  case True
  have "bit_length 1 = 1"
    by (simp add: bit_length.simps)
  then show ?thesis using True
    by (simp add: binary_exponent_def pow2_def)
next
  case False
  with assms have lt: "\<not> 1 \<le> q" by simp
  define k where "k = doublings 1022 q"
  from doublings_reach[OF assms(1) k_def[symmetric]]
  have k: "k \<le> 1022" "k = 1022 \<or> 1 \<le> q * 2 ^ k" by auto
  have e: "binary_exponent q = - int k"
    using lt by (simp add: binary_exponent_def k_def)
  have "pow2 (- int k) \<le> q" if "1 \<le> q * 2 ^ k"
  proof -
    have "pow2 (- int k) = 1 / 2 ^ k"
      by (simp add: pow2_def)
    also have "\<dots> \<le> q"
      using that by (simp add: field_simps)
    finally show ?thesis .
  qed
  with k show ?thesis by (auto simp: e)
qed

lemma round_double_unit:
  assumes "0 < q" "q \<le> 1"
  shows "\<exists>r. round_double q = Fin r \<and> 0 \<le> r \<and> \<bar>r - q\<bar> \<le> q / 2 ^ 53 + 1 / 2 ^ 1075"
proof -
  define e where "e = binary_exponent q"
  define u where "u = pow2 (e - 52)"
  define n where "n = round_half_even (q / u)"
  define m where "m = of_int n * u"
  have e: "e \<le> 0" "e = - 1022 \<or> pow2 e \<le> q"
    using binary_exponent_small[OF assms] by (auto simp: e_def)
  have u: "0 < u" by (simp add: u_def pow2_pos)
  have m: "round_magnitude q = m"
    by (simp add: round_magnitude_def Let_def m_def n_def u_def e_def)
  have "\<bar>of_int n - q / u\<bar> \<le> 1 / 2"
    unfolding n_def by (rule round_half_even_error)
  then have "\<bar>of_int n - q / u\<bar> * u \<le> 1 / 2 * u"
    using u by (simp add: mult_right_mono)
  moreover have "\<bar>of_int n - q / u\<bar> * u = \<bar>m - q\<bar>"
  proof -
    have "(of_int n - q / u) * u = m - q"
      using u by (simp add: m_def left_diff_distrib)
    then have "\<bar>m - q\<bar> = \<bar>of_int n - q / u\<bar> * \<bar>u\<bar>"
      by (simp flip: abs_mult)
    then show ?thesis using u by simp
  qed
  ultimately have err: "\<bar>m - q\<bar> \<le> u / 2" by simp
  have half: "u / 2 = pow2 e / 2 ^ 53"
    by (simp add: u_def pow2_powi power_int_diff)
  have "u / 2 \<le> q / 2 ^ 53 + 1 / 2 ^ 1075"
  proof (cases "pow2 e \<le> q")
    case True
    then have "pow2 e / 2 ^ 53 \<le> q / 2 ^ 53"
      by (simp add: divide_right_mono)
    then show ?thesis by (simp add: half)
  next
    case False
    with e have "e = - 1022" by simp
    then have "u / 2 = 1 / 2 ^ 1075"
      by (simp add: u_def pow2_def)
    then show ?thesis using assms by simp
  qed
  with err have bound: "\<bar>m - q\<bar> \<le> q / 2 ^ 53 + 1 / 2 ^ 1075" by simp
  have "0 \<le> n"
  proof -
    have "0 \<le> q / u" using assms u by simp
    then have "0 \<le> \<lfloor>q / u\<rfloor>" by simp
    then show ?thesis by (auto simp: n_def round_half_even_def Let_def)
  qed
  then have m0: "0 \<le> m" using u by (simp add: m_def)
  have "pow2 e \<le> pow2 0" using e(1) by (rule pow2_mono)
  then have "u / 2 \<le> 1" by (simp add: half pow2_def)
  with err assms have "m \<le> 2" by linarith
  moreover have "(2::rat) < pow2 1024"
    by (simp add: pow2_def) 
  ultimately have "\<not> pow2 1024 \<le> m" by simp
  then have "round_double q = Fin m"
    using assms by (simp add: round_double_def m Let_def)
  with bound m0 show ?thesis by simp
qed

section \<open>Evaluating numbers\<close>

lemma bit_length_numeral:
  "bit_length 0 = 0" "bit_length (Suc 0) = Suc 0"
  "bit_length (numeral k) = Suc (bit_length (numeral k div 2))"
  by (simp_all add: bit_length.simps[of 0] bit_length.simps[of "Suc 0"]
      bit_length.simps[of "numeral k"])

lemma doublings_numeral:
  "doublings (numeral k) q = (if 1 \<le> q then 0 else Suc (doublings (pred_numeral k) (2 * q)))"
  by (simp add: numeral_eq_Suc)

lemmas round_eval = doublings_numeral round_double_def round_magnitude_def binary_exponent_def pow2_def
  round_half_even_def Let_def bit_length_numeral

lemma round_examples:
  "round_double 0 = Fin 0" "round_double 4 = Fin 4" "round_double 2 = Fin 2" "round_double 3 = Fin 3"
  "round_double 5 = Fin 5" "round_double (- 1) = Fin (- 1)" "round_double 1 = Fin 1"
  "round_double (1 / 4) = Fin (1 / 4)" "round_double (1 / 2) = Fin (1 / 2)"
  by (simp_all add: round_eval)

lemmas number_eval = string_to_number_def trim_def is_space_def str_decimal_literal_def
  str_unsigned_decimal_def is_digit_def digit_value_def digits_value_def signed_integer_def
  radix_digits_def radix_literal_def pow10_def Let_def

lemma number_examples:
  "string_to_number ''4'' = Fin 4" "string_to_number ''2'' = Fin 2"
  "string_to_number ''3'' = Fin 3" "string_to_number ''5'' = Fin 5"
  "string_to_number ''0'' = Fin 0" "string_to_number [] = Fin 0"
  "string_to_number ''-1'' = Fin (- 1)" "string_to_number ''n/a'' = NaN"
  by (simp_all add: number_eval round_examples)

lemma divide_examples:
  "divide_counts 1 4 = Fin (1 / 4)" "divide_counts 2 4 = Fin (1 / 2)"
  "divide_counts 0 4 = Fin 0" "divide_counts 4 4 = Fin 1"
  by (simp_all add: divide_counts_def round_examples)

section \<open>Text that is not numeric\<close>

lemma trim_chars:
  assumes "c \<in> set s"
  shows "is_space c \<or> c \<in> set (trim s)"
proof -
  define u where "u = dropWhile is_space s"
  have "s = takeWhile is_space s @ u" by (simp add: u_def)
  then have "c \<in> set (takeWhile is_space s) \<or> c \<in> set u"
    using assms by (metis Un_iff set_append)
  moreover have "is_space c" if "c \<in> set (takeWhile is_space s)"
    using that by (rule set_takeWhileD[THEN conjunct2])
  moreover have "is_space c \<or> c \<in> set (trim s)" if "c \<in> set u"
  proof -
    have "rev u = takeWhile is_space (rev u) @ dropWhile is_space (rev u)" by simp
    then have "set u = set (takeWhile is_space (rev u)) \<union> set (dropWhile is_space (rev u))"
      by (metis set_append set_rev)
    with that have "c \<in> set (takeWhile is_space (rev u)) \<or> c \<in> set (dropWhile is_space (rev u))"
      by simp
    then show ?thesis
      by (auto simp: trim_def u_def dest: set_takeWhileD)
  qed
  ultimately show ?thesis by blast
qed

lemma radix_digits_chars:
  assumes "radix_digits b s = Some n" "b \<le> 16"
  shows "list_all numeric_char s"
  using assms by (auto simp: radix_digits_def numeric_char_def list_all_iff split: if_splits)

lemma signed_integer_chars:
  assumes "signed_integer s = Some e"
  shows "list_all numeric_char s"
proof (cases s)
  case Nil
  then show ?thesis by simp
next
  case (Cons c cs)
  have sign: "numeric_char CHR ''-''" "numeric_char CHR ''+''"
    by (simp_all add: numeric_char_def)
  from assms Cons show ?thesis
    by (auto simp: signed_integer_def sign split: if_splits dest: radix_digits_chars)
qed

lemma is_digit_numeric: "is_digit c \<Longrightarrow> numeric_char c"
  by (simp add: is_digit_def numeric_char_def)

lemma str_unsigned_decimal_chars:
  assumes "str_unsigned_decimal s = Some q"
  shows "list_all numeric_char s"
proof -
  define ip r1 where "ip = takeWhile is_digit s" and "r1 = dropWhile is_digit s"
  define dot where "dot = (r1 \<noteq> [] \<and> hd r1 = CHR ''.'')"
  define fp r2 where "fp = (if dot then takeWhile is_digit (tl r1) else [])"
    and "r2 = (if dot then dropWhile is_digit (tl r1) else r1)"
  define ex where "ex = (if r2 = [] then Some 0
                else if hd r2 = CHR ''e'' \<or> hd r2 = CHR ''E'' then signed_integer (tl r2)
                else None)"
  have s: "s = ip @ r1" by (simp add: ip_def r1_def)
  have r1: "r1 = (if dot then CHR ''.'' # fp @ r2 else r2)"
    by (cases r1) (auto simp: dot_def fp_def r2_def)
  have ip: "list_all numeric_char ip" and fp: "list_all numeric_char fp"
    by (auto simp: ip_def fp_def list_all_iff dest: set_takeWhileD is_digit_numeric)
  have "str_unsigned_decimal s =
      (if ip = [] \<and> fp = [] then None
       else case ex of
              None \<Rightarrow> None
            | Some e \<Rightarrow>
                Some ((of_nat (digits_value 10 ip)
                       + of_nat (digits_value 10 fp) / 10 ^ length fp) * pow10 e))"
    unfolding str_unsigned_decimal_def Let_def ip_def r1_def dot_def fp_def r2_def ex_def
    by (rule refl)
  with assms have "ex \<noteq> None"
    by (auto split: if_splits option.splits)
  then have r2: "list_all numeric_char r2"
  proof (cases r2)
    case Nil
    then show ?thesis by simp
  next
    case (Cons c cs)
    have e: "numeric_char CHR ''e''" "numeric_char CHR ''E''"
      by (simp_all add: numeric_char_def digit_value_def)
    from \<open>ex \<noteq> None\<close> Cons show ?thesis
      by (auto simp: ex_def e split: if_splits dest: signed_integer_chars)
  qed
  have "numeric_char CHR ''.''" by (simp add: numeric_char_def)
  with ip fp r2 show ?thesis
    by (subst s, subst r1) simp
qed

lemma str_decimal_literal_chars:
  assumes "str_decimal_literal s \<noteq> NaN"
  shows "list_all numeric_char s"
proof -
  define body where "body = (if s \<noteq> [] \<and> (hd s = CHR ''-'' \<or> hd s = CHR ''+'') then tl s else s)"
  have sign: "numeric_char CHR ''-''" "numeric_char CHR ''+''"
    by (simp_all add: numeric_char_def)
  have inf: "list_all numeric_char ''Infinity''"
    by (simp add: numeric_char_def digit_value_def)
  have "str_decimal_literal s =
     (if body = ''Infinity'' then (if s \<noteq> [] \<and> hd s = CHR ''-'' then NegInf else PosInf)
      else case str_unsigned_decimal body of
             None \<Rightarrow> NaN
           | Some q \<Rightarrow> round_double (if s \<noteq> [] \<and> hd s = CHR ''-'' then - q else q))"
    unfolding str_decimal_literal_def Let_def body_def by (rule refl)
  with assms have "body = ''Infinity'' \<or> (\<exists>q. str_unsigned_decimal body = Some q)"
    by (auto split: if_splits option.splits)
  then have b: "list_all numeric_char body"
    using inf str_unsigned_decimal_chars by auto
  show ?thesis
  proof (cases s)
    case Nil
    then show ?thesis by simp
  next
    case (Cons c cs)
    with b sign show ?thesis
      by (auto simp: body_def split: if_splits)
  qed
qed

lemma radix_literal_chars:
  assumes "radix_literal b s \<noteq> NaN" "b \<le> 16"
  shows "list_all numeric_char s"
  using assms by (auto simp: radix_literal_def split: option.splits dest: radix_digits_chars)

lemma string_to_number_chars:
  assumes "string_to_number s \<noteq> NaN"
  shows "list_all numeric_char s"
proof -
  define t where "t = trim s"
  have marks: "list_all numeric_char ''0x''" "list_all numeric_char ''0X''"
    "list_all numeric_char ''0o''" "list_all numeric_char ''0O''"
    "list_all numeric_char ''0b''" "list_all numeric_char ''0B''"
    by (simp_all add: numeric_char_def digit_value_def)
  have split: "t = take 2 t @ drop 2 t" by simp
  have "string_to_number s =
     (if t = [] then Fin 0
      else if take 2 t = ''0x'' \<or> take 2 t = ''0X'' then radix_literal 16 (drop 2 t)
      else if take 2 t = ''0o'' \<or> take 2 t = ''0O'' then radix_literal 8 (drop 2 t)
      else if take 2 t = ''0b'' \<or> take 2 t = ''0B'' then radix_literal 2 (drop 2 t)
      else str_decimal_literal t)"
    unfolding string_to_number_def Let_def t_def by (rule refl)
  with assms have "t = [] \<or> (take 2 t \<in> {''0x'', ''0X'', ''0o'', ''0O'', ''0b'', ''0B''}
        \<and> (radix_literal 16 (drop 2 t) \<noteq> NaN \<or> radix_literal 8 (drop 2 t) \<noteq> NaN
           \<or> radix_literal 2 (drop 2 t) \<noteq> NaN))
      \<or> str_decimal_literal t \<noteq> NaN"
    by (auto split: if_splits)
  then have "list_all numeric_char (take 2 t) \<and> list_all numeric_char (drop 2 t)
        \<or> list_all numeric_char t"
    using marks radix_literal_chars[of 16 "drop 2 t"] radix_literal_chars[of 8 "drop 2 t"]
      radix_literal_chars[of 2 "drop 2 t"] str_decimal_literal_chars[of t]
    by auto
  then have t: "list_all numeric_char t"
    by (metis split list_all_append)
  show ?thesis
    unfolding list_all_iff
  proof
    fix c
    assume "c \<in> set s"
    from trim_chars[OF this] have "is_space c \<or> c \<in> set t"
      by (simp add: t_def)
    then show "numeric_char c"
    proof
      assume "is_space c"
      then show ?thesis by (simp add: numeric_char_def)
    next
      assume "c \<in> set t"
      with t show ?thesis by (simp add: list_all_iff)
    qed
  qed
qed

lemma non_numeric_text: "list_ex (\<lambda>c. \<not> numeric_char c) s \<Longrightarrow> string_to_number s = NaN"
  using string_to_number_chars[of s] by (auto simp: list_all_iff list_ex_iff)

section \<open>Properties of the time format\<close>

lemma lower_examples: "toLowerCase ''AM'' = ''am''" "toLowerCase ''  Ruby '' = ''  ruby ''"
  by code_simp+

lemmas time_eval = timeFormat_fields_def number_prefix_def literal_def am_pm_def Let_def
  is_space_def is_digit_def digit_value_def digits_value_def lower_examples

lemma fields_examples:
  "timeFormat_fields ''2014/04/25 11:44:09 AM AST'' = Some (2014, 4, 25, 11, 44, 9, 0)"
  "timeFormat_fields ''25 April 2014'' = None"
  by (simp_all add: time_eval)

lemma parse_examples:
  "timeFormat_parse example_host ''2014/04/25 11:44:09 AM AST'' = Date (Fin 1398426249000)"
  "timeFormat_parse example_host ''25 April 2014'' = Null"
  by (simp_all add: timeFormat_parse_def fields_examples example_host_def utc_time_def
      days_from_civil_def Let_def)

lemma literal_Some: "literal c s = Some r \<longleftrightarrow> s = c # r"
  by (cases s) (auto simp: literal_def)

lemma number_prefix_rest: "number_prefix w s = Some (n, r) \<Longrightarrow> \<exists>p. s = p @ r"
  by (auto simp: number_prefix_def Let_def split: if_splits intro: append_take_drop_id[symmetric])

lemma am_pm_rest: "am_pm s = Some (n, r) \<Longrightarrow> \<exists>p. s = p @ r"
  by (auto simp: am_pm_def Let_def split: if_splits intro: append_take_drop_id[symmetric])

lemma timeFormat_fields_zone:
  assumes "timeFormat_fields t = Some f"
  shows "\<exists>p. t = p @ '' AST''"
proof -
  from assms obtain y s1 m s3 d s5 hh s7 mm s9 ss s11 p s13 where
    st: "number_prefix 4 t = Some (y, s1)" "number_prefix 2 (tl s1) = Some (m, s3)"
      "number_prefix 2 (tl s3) = Some (d, s5)" "number_prefix 2 (tl s5) = Some (hh, s7)"
      "number_prefix 2 (tl s7) = Some (mm, s9)" "number_prefix 2 (tl s9) = Some (ss, s11)"
      "am_pm (tl s11) = Some (p, s13)" "s13 = '' AST''"
    and ne: "s1 \<noteq> []" "s3 \<noteq> []" "s5 \<noteq> []" "s7 \<noteq> []" "s9 \<noteq> []" "s11 \<noteq> []"
    by (auto simp: timeFormat_fields_def bind_eq_Some_conv literal_Some split: if_splits)
  have step: "\<exists>p. a = p @ b" if "\<exists>p. tl a = p @ b" "a \<noteq> []" for a b :: string
    using that by (cases a) (auto intro: Cons_eq_appendI)
  have tr: "\<exists>p. a = p @ c" if "\<exists>p. a = p @ b" "\<exists>p. b = p @ c" for a b c :: string
    using that by (metis append.assoc)
  note n = number_prefix_rest am_pm_rest
  have "\<exists>p. s11 = p @ s13" using step[OF n(2)[OF st(7)] ne(6)] .
  then have "\<exists>p. s9 = p @ s13" using tr[OF step[OF n(1)[OF st(6)] ne(5)]] by blast
  then have "\<exists>p. s7 = p @ s13" using tr[OF step[OF n(1)[OF st(5)] ne(4)]] by blast
  then have "\<exists>p. s5 = p @ s13" using tr[OF step[OF n(1)[OF st(4)] ne(3)]] by blast
  then have "\<exists>p. s3 = p @ s13" using tr[OF step[OF n(1)[OF st(3)] ne(2)]] by blast
  then have "\<exists>p. s1 = p @ s13" using tr[OF step[OF n(1)[OF st(2)] ne(1)]] by blast
  then have "\<exists>p. t = p @ s13" using tr[OF n(1)[OF st(1)]] by blast
  then show ?thesis by (simp add: st(8))
qed

lemma timeFormat_parse_cases:
  "timeFormat_parse H t = (if timeFormat_fields t = None then Null else timeFormat_parse H t)"
  "timeFormat_fields t = None \<Longrightarrow> timeFormat_parse H t = Null"
  "timeFormat_fields t \<noteq> None \<Longrightarrow> \<exists>v. timeFormat_parse H t = Date v"
  by (auto simp: timeFormat_parse_def split: option.splits)

section \<open>Properties of the row normaliser\<close>

lemma schema_distinct:
  "distinct (multiValuedFields @ numericFields @ [''Timestamp'', fields_favlang])"
  by (simp add: multiValuedFields_def numericFields_def statements_def otherNums_def
      fields_beliefs_def fields_worklangs_def fields_superexst_def fields_superpers_def
      fields_godrelate_def fields_godspeaks_def fields_bibletrue_def fields_bibleusfl_def
      fields_divpunish_def fields_divreward_def fields_universal_def fields_humangood_def
      fields_suffersin_def fields_humancrea_def fields_naturcrea_def fields_progyears_def
      fields_workyears_def fields_favlang_def)

lemma get_upd: "get (m(k \<mapsto> v)) j = (if j = k then v else get m j)"
  by (simp add: get_def)

lemma update_frame:
  assumes "update a k f h = (r, h')"
  shows "(\<forall>b. b \<noteq> a \<longrightarrow> h' b = h b) \<and> (\<forall>j. j \<noteq> k \<longrightarrow> h' a j = h a j)"
  using assms by (auto simp: update_def split: sum.splits)

lemma forEach_update_frame:
  assumes "forEach fs (\<lambda>field. update a field f) h = (r, h')"
  shows "(\<forall>b. b \<noteq> a \<longrightarrow> h' b = h b) \<and> (\<forall>j. j \<notin> set fs \<longrightarrow> h' a j = h a j)"
  using assms
proof (induction fs arbitrary: h)
  case Nil
  then show ?case by simp
next
  case (Cons k fs)
  obtain r1 h1 where u: "update a k f h = (r1, h1)" by (cases "update a k f h")
  note fr = update_frame[OF u]
  show ?case
  proof (cases r1)
    case (Inl e)
    with Cons.prems u have "h' = h1" by simp
    with fr show ?thesis by simp
  next
    case (Inr x)
    with Cons.prems u have "forEach fs (\<lambda>field. update a field f) h1 = (r, h')" by simp
    from Cons.IH[OF this] fr show ?thesis by simp
  qed
qed

lemma forEach_unary_plus:
  assumes "distinct fs"
  shows "\<exists>h'. forEach fs (\<lambda>field. update a field unary_plus) h = (Inr (), h')
           \<and> (\<forall>j \<in> set fs. h' a j = Some (Num (to_number (get (h a) j))))"
  using assms
proof (induction fs arbitrary: h)
  case Nil
  then show ?case by simp
next
  case (Cons k fs)
  define h1 where "h1 = h(a := (h a)(k \<mapsto> Num (to_number (get (h a) k))))"
  have u: "update a k unary_plus h = (Inr (), h1)"
    by (simp add: update_def unary_plus_def h1_def)
  from Cons obtain h' where h': "forEach fs (\<lambda>field. update a field unary_plus) h1 = (Inr (), h')"
    "\<forall>j \<in> set fs. h' a j = Some (Num (to_number (get (h1 a) j)))"
    by (metis distinct.simps(2))
  have k: "k \<notin> set fs" using Cons.prems by simp
  from forEach_update_frame[OF h'(1)] k have "h' a k = h1 a k" by simp
  moreover have "get (h1 a) j = get (h a) j" if "j \<in> set fs" for j
    using that k by (auto simp: h1_def get_upd)
  ultimately show ?case
    using u h' by (simp add: h1_def)
qed

lemma parseRow_frame:
  assumes "parseRow H d h = (r, h')"
  shows "(\<forall>a. a \<noteq> d \<longrightarrow> h' a = h a)
       \<and> (\<forall>j. j \<notin> set multiValuedFields \<union> set numericFields \<union> {''Timestamp'', fields_favlang}
              \<longrightarrow> h' d j = h d j)
       \<and> (\<forall>x. r = Inr x \<longrightarrow> x = d)"
proof -
  obtain r1 h1 where s1: "forEach multiValuedFields (\<lambda>field. update d field parseList) h = (r1, h1)"
    by (cases "forEach multiValuedFields (\<lambda>field. update d field parseList) h")
  obtain r2 h2 where s2: "forEach numericFields (\<lambda>field. update d field unary_plus) h1 = (r2, h2)"
    by (cases "forEach numericFields (\<lambda>field. update d field unary_plus) h1")
  obtain r3 h3 where s3: "update d ''Timestamp'' (timeFormat_parse_call H) h2 = (r3, h3)"
    by (cases "update d ''Timestamp'' (timeFormat_parse_call H) h2")
  obtain r4 h4 where s4: "update d fields_favlang parseLang h3 = (r4, h4)"
    by (cases "update d fields_favlang parseLang h3")
  note f1 = forEach_update_frame[OF s1] and f2 = forEach_update_frame[OF s2]
    and f3 = update_frame[OF s3] and f4 = update_frame[OF s4]
  have "h' = h1 \<or> h' = h2 \<or> h' = h3 \<or> h' = h4"
    using assms s1 s2 s3 s4 by (auto simp: parseRow_def split: sum.splits)
  moreover have "\<forall>x. r = Inr x \<longrightarrow> x = d"
    using assms by (auto simp: parseRow_def split: sum.splits prod.splits)
  ultimately show ?thesis
    using f1 f2 f3 f4 by auto
qed

lemma parseRow_ok:
  assumes "get (h d) fields_beliefs = Str b" "get (h d) fields_worklangs = Str w"
    "get (h d) ''Timestamp'' = Str t" "get (h d) fields_favlang = Str l"
  shows "\<exists>h'. parseRow H d h = (Inr d, h')
     \<and> h' d fields_beliefs = Some (Arr (split_on (\<lambda>c. c = CHR '';'' \<or> c = CHR '','') b))
     \<and> h' d fields_worklangs = Some (Arr (split_on (\<lambda>c. c = CHR '';'' \<or> c = CHR '','') w))
     \<and> (\<forall>j \<in> set numericFields. h' d j = Some (Num (to_number (get (h d) j))))
     \<and> h' d ''Timestamp'' = Some (timeFormat_parse H t)
     \<and> h' d fields_favlang = Some (Str (parseLang_string l))"
proof -
  let ?sep = "\<lambda>c. c = CHR '';'' \<or> c = CHR '',''"
  have ne: "fields_beliefs \<noteq> fields_worklangs"
    "fields_beliefs \<notin> set numericFields" "fields_worklangs \<notin> set numericFields"
    "fields_beliefs \<noteq> ''Timestamp''" "fields_worklangs \<noteq> ''Timestamp''"
    "fields_beliefs \<noteq> fields_favlang" "fields_worklangs \<noteq> fields_favlang"
    "''Timestamp'' \<notin> set numericFields" "fields_favlang \<notin> set numericFields"
    "''Timestamp'' \<noteq> fields_favlang" "distinct numericFields"
    using schema_distinct by (auto simp: multiValuedFields_def)
  define h1 where "h1 = h(d := (h d)(fields_beliefs \<mapsto> Arr (split_on ?sep b),
                                       fields_worklangs \<mapsto> Arr (split_on ?sep w)))"
  have s1: "forEach multiValuedFields (\<lambda>field. update d field parseList) h = (Inr (), h1)"
    using assms(1,2) ne(1) by (simp add: multiValuedFields_def update_def get_upd h1_def)
  obtain h2 where s2: "forEach numericFields (\<lambda>field. update d field unary_plus) h1 = (Inr (), h2)"
    and n2: "\<forall>j \<in> set numericFields. h2 d j = Some (Num (to_number (get (h1 d) j)))"
    using forEach_unary_plus[OF ne(11)] by blast
  note f2 = forEach_update_frame[OF s2]
  have g2: "get (h2 d) ''Timestamp'' = Str t" "get (h2 d) fields_favlang = Str l"
    using f2 ne assms(3,4) by (auto simp: get_def h1_def)
  define h3 where "h3 = h2(d := (h2 d)(''Timestamp'' \<mapsto> timeFormat_parse H t))"
  have s3: "update d ''Timestamp'' (timeFormat_parse_call H) h2 = (Inr (), h3)"
    using g2(1) by (simp add: update_def h3_def)
  define h4 where "h4 = h3(d := (h3 d)(fields_favlang \<mapsto> Str (parseLang_string l)))"
  have s4: "update d fields_favlang parseLang h3 = (Inr (), h4)"
    using g2(2) ne(10) by (simp add: update_def h3_def h4_def get_upd)
  have p: "parseRow H d h = (Inr d, h4)"
    by (simp add: parseRow_def s1 s2 s3 s4)
  have "h4 d fields_beliefs = Some (Arr (split_on ?sep b))"
    "h4 d fields_worklangs = Some (Arr (split_on ?sep w))"
    using f2 ne by (simp_all add: h4_def h3_def h1_def)
  moreover have "h4 d j = Some (Num (to_number (get (h d) j)))" if "j \<in> set numericFields" for j
  proof -
    have "j \<noteq> fields_beliefs" "j \<noteq> fields_worklangs" "j \<noteq> ''Timestamp''" "j \<noteq> fields_favlang"
      using that ne by auto
    then show ?thesis
      using n2 that by (simp add: h4_def h3_def h1_def get_upd)
  qed
  moreover have "h4 d ''Timestamp'' = Some (timeFormat_parse H t)"
    "h4 d fields_favlang = Some (Str (parseLang_string l))"
    using ne by (simp_all add: h4_def h3_def)
  ultimately show ?thesis using p by blast
qed

lemma get_row_of_cells: "k \<in> set columns \<Longrightarrow> get (row_of_cells cell) k = Str (cell k)"
  by (simp add: row_of_cells_def get_def map_of_map_restrict)

lemma raw_record_row_of_cells: "raw_record (row_of_cells cell)"
  by (simp add: raw_record_def list_all_iff get_row_of_cells)

lemma raw_record_get: "raw_record d \<Longrightarrow> k \<in> set columns \<Longrightarrow> \<exists>s. get d k = Str s"
  by (cases "get d k") (auto simp: raw_record_def list_all_iff)

lemma columns_used:
  "fields_beliefs \<in> set columns" "fields_worklangs \<in> set columns"
  "''Timestamp'' \<in> set columns" "fields_favlang \<in> set columns"
  "fields_humangood \<in> set columns" "fields_feedback \<in> set columns"
  "set numericFields \<subseteq> set columns"
  by (simp_all add: columns_def numericFields_def statements_def otherNums_def)

lemma raw_record_parseRow:
  assumes "raw_record (h d)"
  shows "\<exists>h' b w t l. parseRow H d h = (Inr d, h')
     \<and> get (h d) fields_beliefs = Str b \<and> get (h d) fields_worklangs = Str w
     \<and> get (h d) ''Timestamp'' = Str t \<and> get (h d) fields_favlang = Str l
     \<and> h' d fields_beliefs = Some (Arr (split_on (\<lambda>c. c = CHR '';'' \<or> c = CHR '','') b))
     \<and> h' d fields_worklangs = Some (Arr (split_on (\<lambda>c. c = CHR '';'' \<or> c = CHR '','') w))
     \<and> (\<forall>j \<in> set numericFields. h' d j = Some (Num (to_number (get (h d) j))))
     \<and> h' d ''Timestamp'' = Some (timeFormat_parse H t)
     \<and> h' d fields_favlang = Some (Str (parseLang_string l))"
proof -
  from raw_record_get[OF assms] columns_used obtain b w t l where
    g: "get (h d) fields_beliefs = Str b" "get (h d) fields_worklangs = Str w"
     "get (h d) ''Timestamp'' = Str t" "get (h d) fields_favlang = Str l"
    by metis
  from parseRow_ok[where h=h and d=d and H=H, OF g] g show ?thesis by blast
qed

lemma statements_numeric: "field \<in> set statements \<Longrightarrow> field \<in> set numericFields"
  by (simp add: numericFields_def)

lemma normalize_field:
  assumes "raw_record raw"
  shows "\<exists>d. normalize H raw = Inr d
     \<and> (\<forall>j \<in> set numericFields. get d j = Num (to_number (get raw j)))
     \<and> (\<forall>l. get raw fields_favlang = Str l \<longrightarrow> get d fields_favlang = Str (parseLang_string l))
     \<and> (\<forall>b. get raw fields_beliefs = Str b \<longrightarrow>
            get d fields_beliefs = Arr (split_on (\<lambda>c. c = CHR '';'' \<or> c = CHR '','') b))"
proof -
  from raw_record_parseRow[where h="\<lambda>a. raw" and d=0 and H=H] assms obtain h' b l where
    p: "parseRow H 0 (\<lambda>a. raw) = (Inr 0, h')"
     "get raw fields_beliefs = Str b" "get raw fields_favlang = Str l"
     "h' 0 fields_beliefs = Some (Arr (split_on (\<lambda>c. c = CHR '';'' \<or> c = CHR '','') b))"
     "\<forall>j \<in> set numericFields. h' 0 j = Some (Num (to_number (get raw j)))"
     "h' 0 fields_favlang = Some (Str (parseLang_string l))"
    by auto
  then show ?thesis
    by (auto simp: normalize_def get_def)
qed

text \<open>
  Outside the raw records the call can raise: \<^verbatim>\<open>split\<close> is a method of strings, and an
  object without the beliefs column gives \<^verbatim>\<open>undefined\<close> for it.
\<close>

lemma parseRow_raises:
  "\<not> is_string (get (h d) fields_beliefs) \<Longrightarrow> parseRow H d h = (Inl TypeError, h)"
  by (cases "get (h d) fields_beliefs")
    (simp_all add: parseRow_def multiValuedFields_def update_def)

section \<open>Properties of the cross-tabulation\<close>

lemma set_entries: "set (entries m) = set m"
  by (auto simp: entries_def)

lemma entries_without_index:
  "list_all (\<lambda>(k, v). array_index k = None) m \<Longrightarrow> entries m = m"
  by (simp add: entries_def list_all_iff split_def)

lemma no_index_examples: "array_index ''go'' = None" "array_index ''ruby'' = None"
  by (simp_all add: array_index_def is_digit_def digit_value_def)

lemma wf_stats_ensure: "wf_stats m \<Longrightarrow> wf_stats (ensure m lang)"
  by (auto simp: wf_stats_def ensure_def)

lemma map_fst_increment: "map fst (increment m lang bin) = map fst m"
  by (induction m) (auto simp: increment_def)

lemma wf_stats_increment: "wf_stats m \<Longrightarrow> wf_stats (increment m lang bin)"
  by (auto simp: wf_stats_def map_fst_increment) (auto simp: increment_def list_all_iff split: if_splits)

lemma wf_stats_count_row: "wf_stats m \<Longrightarrow> wf_stats (count_row H m row)"
  by (simp add: count_row_def Let_def wf_stats_ensure wf_stats_increment)

lemma wf_stats_foldl: "wf_stats m \<Longrightarrow> wf_stats (foldl (count_row H) m rows)"
  by (induction rows arbitrary: m) (simp_all add: wf_stats_count_row)

lemma wf_agreement_stats: "wf_stats (agreement_stats H rows)"
proof -
  have "wf_stats []" by (simp add: wf_stats_def)
  then show ?thesis
    unfolding agreement_stats_def by (rule wf_stats_foldl)
qed

lemma agreement_data_entry:
  assumes "(key, fr) \<in> set (agreement_data H rows)"
  shows "\<exists>a b c. map_of (agreement_stats H rows) key = Some [a, b, c] \<and> 3 < a + b + c
           \<and> fr = [divide_counts a (a + b + c), divide_counts b (a + b + c),
                    divide_counts c (a + b + c)]"
proof -
  from assms obtain v where v: "(key, v) \<in> set (agreement_stats H rows)" "3 < sum_list v"
      "fr = map (\<lambda>x. divide_counts x (sum_list v)) v"
    by (auto simp: agreement_data_def set_entries)
  have wf: "wf_stats (agreement_stats H rows)" by (rule wf_agreement_stats)
  with v(1) have len: "length v = 3"
    by (auto simp: wf_stats_def list_all_iff)
  then obtain a b c where abc: "v = [a, b, c]"
    by (auto simp: length_Suc_conv numeral_3_eq_3)
  from wf v(1) have "map_of (agreement_stats H rows) key = Some v"
    by (simp add: wf_stats_def)
  with v abc show ?thesis by (simp add: add.assoc)
qed

lemma divide_counts_error:
  assumes "x \<le> n" "0 < n"
  shows "\<exists>r. divide_counts x n = Fin r \<and> 0 \<le> r
           \<and> \<bar>r - of_nat x / of_nat n\<bar> \<le> (of_nat x / of_nat n) / 2 ^ 53 + 1 / 2 ^ 1075"
proof (cases "x = 0")
  case True
  then show ?thesis by (simp add: divide_counts_def round_double_def)
next
  case False
  with assms have "0 < (of_nat x / of_nat n :: rat)" "(of_nat x / of_nat n :: rat) \<le> 1"
    by simp_all
  from round_double_unit[OF this] show ?thesis
    by (simp add: divide_counts_def)
qed

lemma fractions_sum:
  assumes "3 < a + b + (c::nat)"
  shows "\<exists>f0 f1 f2. [divide_counts a (a + b + c), divide_counts b (a + b + c),
                      divide_counts c (a + b + c)] = [Fin f0, Fin f1, Fin f2]
           \<and> 0 \<le> f0 \<and> 0 \<le> f1 \<and> 0 \<le> f2 \<and> \<bar>f0 + f1 + f2 - 1\<bar> \<le> 1 / 2 ^ 52"
proof -
  define n where "n = a + b + c"
  have n: "0 < n" "a \<le> n" "b \<le> n" "c \<le> n" using assms unfolding n_def by linarith+
  define e :: rat where "e = 1 / 2 ^ 1075"
  obtain f0 where f0: "divide_counts a n = Fin f0" "0 \<le> f0"
      "\<bar>f0 - of_nat a / of_nat n\<bar> \<le> (of_nat a / of_nat n) / 2 ^ 53 + e"
    using divide_counts_error[OF n(2) n(1)] by (auto simp: e_def)
  obtain f1 where f1: "divide_counts b n = Fin f1" "0 \<le> f1"
      "\<bar>f1 - of_nat b / of_nat n\<bar> \<le> (of_nat b / of_nat n) / 2 ^ 53 + e"
    using divide_counts_error[OF n(3) n(1)] by (auto simp: e_def)
  obtain f2 where f2: "divide_counts c n = Fin f2" "0 \<le> f2"
      "\<bar>f2 - of_nat c / of_nat n\<bar> \<le> (of_nat c / of_nat n) / 2 ^ 53 + e"
    using divide_counts_error[OF n(4) n(1)] by (auto simp: e_def)
  define qa qb qc :: rat where "qa = of_nat a / of_nat n" and "qb = of_nat b / of_nat n"
    and "qc = of_nat c / of_nat n"
  have one: "qa + qb + qc = 1"
  proof -
    have "(of_nat n :: rat) \<noteq> 0" using n(1) by simp
    moreover have "qa + qb + qc = (of_nat a + of_nat b + of_nat c) / of_nat n"
      by (simp only: qa_def qb_def qc_def add_divide_distrib)
    moreover have "(of_nat a + of_nat b + of_nat c :: rat) = of_nat n"
      by (simp only: n_def of_nat_add)
    ultimately show ?thesis by simp
  qed
  have "\<bar>f0 + f1 + f2 - 1\<bar> = \<bar>(f0 - qa) + (f1 - qb) + (f2 - qc)\<bar>"
    using one by (simp add: algebra_simps)
  also have "\<dots> \<le> \<bar>f0 - qa\<bar> + \<bar>f1 - qb\<bar> + \<bar>f2 - qc\<bar>"
    by linarith
  also have "\<dots> \<le> (qa / 2 ^ 53 + e) + (qb / 2 ^ 53 + e) + (qc / 2 ^ 53 + e)"
    using f0(3) f1(3) f2(3) by (simp add: qa_def qb_def qc_def)
  also have "\<dots> = (qa + qb + qc) / 2 ^ 53 + 3 * e"
    by (simp add: add_divide_distrib)
  also have "\<dots> = 1 / 2 ^ 53 + 3 * e"
    by (simp add: one)
  also have "\<dots> \<le> 1 / 2 ^ 52"
    by (simp add: e_def)
  finally show ?thesis
    using f0 f1 f2 by (simp add: n_def)
qed

lemma bin_of_less: "bin_of H v < 3"
  by (simp add: bin_of_def)

lemma map_of_ensure:
  "map_of (ensure m lang) key
     = (if key = lang \<and> lang \<notin> fst ` set m then Some [0, 0, 0] else map_of m key)"
proof (cases "lang \<in> fst ` set m")
  case True
  then show ?thesis by (simp add: ensure_def)
next
  case False
  then have "map_of m lang = None" by (simp add: map_of_eq_None_iff)
  then show ?thesis
    using False by (cases "map_of m key") (auto simp: ensure_def map_add_def)
qed

lemma map_of_increment:
  "map_of (increment m lang bin) key
     = (if key = lang then map_option (\<lambda>v. v[bin := v ! bin + 1]) (map_of m key)
        else map_of m key)"
  by (induction m) (auto simp: increment_def)

lemma total_of_count_row:
  assumes "wf_stats m" "key \<notin> set object_prototype_keys"
  shows "total_of (count_row H m row) key
           = total_of m key + (if property_key H (get row fields_favlang) = key then 1 else 0)"
proof -
  define lang where "lang = property_key H (get row fields_favlang)"
  define bin where "bin = bin_of H (get row fields_humangood)"
  have bin: "bin < 3" by (simp add: bin_def bin_of_less)
  show ?thesis
  proof (cases "lang \<in> set object_prototype_keys")
    case True
    with assms(2) have "lang \<noteq> key" by auto
    with True show ?thesis
      by (simp add: count_row_def Let_def flip: lang_def)
  next
    case False
    have cr: "count_row H m row = increment (ensure m lang) lang bin"
      using False by (simp add: count_row_def Let_def flip: lang_def bin_def)
    show ?thesis
    proof (cases "key = lang")
      case neq: False
      then show ?thesis
        by (simp add: cr total_of_def map_of_increment map_of_ensure flip: lang_def)
    next
      case True
      have len: "length v = 3" if "map_of m lang = Some v" for v
        using that assms(1) by (auto simp: wf_stats_def list_all_iff dest: map_of_SomeD)
      have upd: "sum_list (v[bin := v ! bin + 1]) = sum_list v + 1" if "length v = 3" for v :: "nat list"
        using that bin by (simp add: sum_list_update)
      show ?thesis
      proof (cases "map_of m lang")
        case None
        then have "lang \<notin> fst ` set m" by (simp add: map_of_eq_None_iff)
        then show ?thesis
          using None True upd[of "[0, 0, 0]"]
          by (simp add: cr total_of_def map_of_increment map_of_ensure flip: lang_def)
      next
        case (Some v)
        then have "lang \<in> fst ` set m" by (metis map_of_eq_None_iff option.distinct(1))
        then show ?thesis
          using Some True upd[OF len[OF Some]]
          by (simp add: cr total_of_def map_of_increment map_of_ensure flip: lang_def)
      qed
    qed
  qed
qed

lemma total_of_foldl:
  assumes "wf_stats m" "key \<notin> set object_prototype_keys"
  shows "total_of (foldl (count_row H) m rs) key
           = total_of m key + length (filter (\<lambda>r. property_key H (get r fields_favlang) = key) rs)"
  using assms(1)
proof (induction rs arbitrary: m)
  case Nil
  then show ?case by simp
next
  case (Cons r rs)
  from Cons.prems have "wf_stats (count_row H m r)" by (rule wf_stats_count_row)
  from Cons.IH[OF this] total_of_count_row[OF Cons.prems assms(2), of H r]
  show ?case by simp
qed

lemma total_of_agreement_stats:
  assumes "key \<notin> set object_prototype_keys"
  shows "total_of (agreement_stats H rows) key
     = length (filter (\<lambda>r. makeHasOpinion fields_humangood r
                          \<and> property_key H (get r fields_favlang) = key) rows)"
proof -
  have "wf_stats []" by (simp add: wf_stats_def)
  from total_of_foldl[OF this assms, of H "filter (makeHasOpinion fields_humangood) rows"]
  show ?thesis
    by (simp add: agreement_stats_def total_of_def conj_commute)
qed

section \<open>Properties of the sort\<close>

lemma js_ge_Fin: "js_ge (Fin a) (Fin b) = (b \<le> a)"
  by (auto simp: js_ge_def)

lemma descending_positive_Fin:
  "js_lt (Fin 0) (d3_descending (Fin a) (Fin b)) = (a < b)"
  by (auto simp: d3_descending_def js_ge_def)

lemma set_insert_by: "set (insert_by cmp x ys) = insert x (set ys)"
  by (induction ys) auto

lemma length_insert_by: "length (insert_by cmp x ys) = Suc (length ys)"
  by (induction ys) auto

lemma set_sort_by: "set (sort_by cmp xs) = set xs"
  by (induction xs) (simp_all add: sort_by_def set_insert_by)

lemma length_sort_by: "length (sort_by cmp xs) = length xs"
  by (induction xs) (simp_all add: sort_by_def length_insert_by)

lemma insert_by_sorted:
  assumes "\<forall>a \<in> set (x # ys). \<exists>q. key a = Fin q"
    and "sorted_wrt (\<lambda>a b. js_ge (key a) (key b)) ys"
  shows "sorted_wrt (\<lambda>a b. js_ge (key a) (key b))
           (insert_by (\<lambda>a b. d3_descending (key a) (key b)) x ys)"
  using assms
proof (induction ys)
  case Nil
  then show ?case by simp
next
  case (Cons y ys)
  obtain qx qy where q: "key x = Fin qx" "key y = Fin qy"
    using Cons.prems(1) by auto
  show ?case
  proof (cases "qx < qy")
    case True
    have "sorted_wrt (\<lambda>a b. js_ge (key a) (key b))
            (insert_by (\<lambda>a b. d3_descending (key a) (key b)) x ys)"
      using Cons by simp
    moreover have "js_ge (key y) (key x)"
      using True by (simp add: q js_ge_Fin)
    ultimately show ?thesis
      using True Cons.prems(2) by (simp add: q descending_positive_Fin set_insert_by)
  next
    case False
    have "js_ge (key x) (key z)" if "z \<in> set ys" for z
    proof -
      have "z \<in> set (x # y # ys)" using that by simp
      with Cons.prems(1) obtain qz where qz: "key z = Fin qz" by blast
      from that Cons.prems(2) have "js_ge (key y) (key z)" by simp
      then show ?thesis using False by (simp add: q qz js_ge_Fin)
    qed
    then show ?thesis
      using False Cons.prems(2) by (simp add: q descending_positive_Fin js_ge_Fin)
  qed
qed

lemma sort_by_sorted:
  assumes "\<forall>a \<in> set xs. \<exists>q. key a = Fin q"
  shows "sorted_wrt (\<lambda>a b. js_ge (key a) (key b))
           (sort_by (\<lambda>a b. d3_descending (key a) (key b)) xs)"
  using assms
proof (induction xs)
  case Nil
  then show ?case by (simp add: sort_by_def)
next
  case (Cons x xs)
  have "sort_by (\<lambda>a b. d3_descending (key a) (key b)) (x # xs)
          = insert_by (\<lambda>a b. d3_descending (key a) (key b)) x
              (sort_by (\<lambda>a b. d3_descending (key a) (key b)) xs)"
    by (simp add: sort_by_def)
  moreover have "\<forall>a \<in> set (x # sort_by (\<lambda>a b. d3_descending (key a) (key b)) xs).
                   \<exists>q. key a = Fin q"
    using Cons.prems by (simp add: set_sort_by)
  ultimately show ?case
    using Cons by (simp add: insert_by_sorted)
qed

lemma agreement_data_agree:
  assumes "d \<in> set (agreement_data H rows)"
  shows "\<exists>q. agree d = Fin q"
proof -
  obtain k fr where d: "d = (k, fr)" by (cases d)
  from agreement_data_entry[of k fr H rows] assms d obtain a b c where
    "3 < a + b + c" "fr = [divide_counts a (a + b + c), divide_counts b (a + b + c),
                    divide_counts c (a + b + c)]" by auto
  with fractions_sum[of a b c] show ?thesis
    by (auto simp: d agree_def)
qed

section \<open>The example data evaluated\<close>

lemma example_fields_distinct:
  "distinct [fields_beliefs, fields_humangood, fields_favlang, ''Timestamp'', fields_progyears]"
  by (simp add: fields_beliefs_def fields_humangood_def fields_favlang_def fields_progyears_def)

lemma get_example_row:
  "get (example_row b g l) fields_beliefs = Str b"
  "get (example_row b g l) fields_humangood = Str g"
  "get (example_row b g l) fields_favlang = Str l"
  "get (example_row b g l) ''Timestamp'' = Str ''2014/04/25 11:44:09 AM AST''"
  "get (example_row b g l) fields_progyears = Str []"
  using example_fields_distinct
  by (auto simp: example_row_def get_row_of_cells columns_def example_cells_def)

lemma survey_row_example: "survey_row b g l (example_row b g l)"
  by (simp add: survey_row_def get_example_row) (simp add: example_row_def raw_record_row_of_cells)

lemma get_example_normalized:
  "get (example_normalized b g l) fields_beliefs = Arr b"
  "get (example_normalized b g l) fields_humangood = Num (Fin g)"
  "get (example_normalized b g l) fields_favlang = Str l"
  using example_fields_distinct
  by (auto simp: example_normalized_def get_def)

lemma lang_examples:
  "parseLang_string ''Go'' = ''go''" "parseLang_string ''Ruby'' = ''ruby''"
  "list_all (\<lambda>(lang, r). \<not> js_match (toLowerCase (trim ''Ruby'')) r) langPatterns"
  "toLowerCase (trim ''Ruby'') = ''ruby''"
  by code_simp+

lemma count_row_typed:
  assumes "get row fields_humangood = Num (Fin q)" "get row fields_favlang = Str l"
    "l \<notin> set object_prototype_keys"
  shows "count_row H m row
           = increment (ensure m l) l (if q = 3 then 1 else if q < 3 then 0 else 2)"
  using assms by (simp add: count_row_def bin_of_def)

lemma hasOpinion_typed:
  "get row fields_humangood = Num (Fin q) \<Longrightarrow> makeHasOpinion fields_humangood row = (0 < q)"
  by (simp add: makeHasOpinion_def)

lemma not_inherited: "''go'' \<notin> set object_prototype_keys" "''ruby'' \<notin> set object_prototype_keys"
  by (simp_all add: object_prototype_keys_def)

lemma example_crosstab:
  assumes "get d1 fields_humangood = Num (Fin 4)" "get d1 fields_favlang = Str ''go''"
    "get d2 fields_humangood = Num (Fin 2)" "get d2 fields_favlang = Str ''go''"
    "get d3 fields_humangood = Num (Fin 3)" "get d3 fields_favlang = Str ''go''"
    "get d4 fields_humangood = Num (Fin 5)" "get d4 fields_favlang = Str ''go''"
  shows "agreement_stats H [d1, d2, d3, d4] = [(''go'', [1, 1, 2])]"
    and "agreement_data H [d1, d2, d3, d4] = [(''go'', [Fin (1 / 4), Fin (1 / 4), Fin (1 / 2)])]"
proof -
  show st: "agreement_stats H [d1, d2, d3, d4] = [(''go'', [1, 1, 2])]"
    using assms
    by (simp add: agreement_stats_def hasOpinion_typed count_row_typed not_inherited
        ensure_def increment_def)
  show "agreement_data H [d1, d2, d3, d4] = [(''go'', [Fin (1 / 4), Fin (1 / 4), Fin (1 / 2)])]"
    using divide_examples
    by (simp add: agreement_data_def st entries_without_index no_index_examples eval_nat_numeral)
qed

lemma keys_count_row:
  assumes "k \<in> fst ` set (count_row H m row)"
  shows "k \<in> fst ` set m \<or> k \<notin> set object_prototype_keys"
proof -
  have "fst ` set (increment n lang bin) = fst ` set n" for n lang bin
    by (metis map_fst_increment set_map)
  with assms show ?thesis
    by (auto simp: count_row_def Let_def ensure_def split: if_splits)
qed

lemma keys_foldl:
  assumes "k \<in> fst ` set (foldl (count_row H) m rs)"
  shows "k \<in> fst ` set m \<or> k \<notin> set object_prototype_keys"
  using assms
proof (induction rs arbitrary: m)
  case Nil
  then show ?case by simp
next
  case (Cons r rs)
  then have "k \<in> fst ` set (count_row H m r) \<or> k \<notin> set object_prototype_keys" by simp
  then show ?case using keys_count_row by blast
qed

lemma agreement_stats_keys:
  "(k, v) \<in> set (agreement_stats H rows) \<Longrightarrow> k \<notin> set object_prototype_keys"
  using keys_foldl[of k H "[]"] by (force simp: agreement_stats_def)

lemma agreement_stats_total:
  assumes "map_of (agreement_stats H rows) key = Some v"
  shows "sum_list v = length (filter (\<lambda>r. makeHasOpinion fields_humangood r
                          \<and> property_key H (get r fields_favlang) = key) rows)"
proof -
  from assms have "(key, v) \<in> set (agreement_stats H rows)" by (rule map_of_SomeD)
  then have "key \<notin> set object_prototype_keys" by (rule agreement_stats_keys)
  from total_of_agreement_stats[OF this, of H rows] assms show ?thesis
    by (simp add: total_of_def)
qed

lemma example_rows_eval:
  "agreement_stats H example_rows = [(''go'', [1, 1, 2])]"
  "agreement_data H example_rows = [(''go'', [Fin (1 / 4), Fin (1 / 4), Fin (1 / 2)])]"
  unfolding example_rows_def
  by (rule example_crosstab; simp add: get_example_normalized)+

lemma example_rows_two_eval:
  "agreement_data H example_rows_two
     = [(''go'', [Fin (1 / 4), Fin (1 / 4), Fin (1 / 2)]), (''ruby'', [Fin 0, Fin 0, Fin 1])]"
proof -
  have "agreement_stats H example_rows_two = [(''go'', [1, 1, 2]), (''ruby'', [0, 0, 4])]"
    by (simp add: example_rows_two_def example_rows_def agreement_stats_def hasOpinion_typed
        count_row_typed not_inherited get_example_normalized ensure_def increment_def)
  then show ?thesis
    using divide_examples
    by (simp add: agreement_data_def entries_without_index no_index_examples eval_nat_numeral)
qed

lemma get_example_row_feedback: "get (example_row b g l) fields_feedback = Str []"
  by (simp add: example_row_def get_row_of_cells columns_def example_cells_def)
    (simp add: fields_feedback_def fields_beliefs_def fields_humangood_def fields_favlang_def)

lemma first_match_none:
  "list_all (\<lambda>(lang, r). \<not> js_match x r) ps \<Longrightarrow> first_match ps x = x"
  by (induction ps x rule: first_match.induct) auto

lemma humangood_numeric: "fields_humangood \<in> set statements" "fields_humangood \<in> set numericFields"
  "fields_progyears \<in> set numericFields"
  by (simp_all add: numericFields_def statements_def otherNums_def)

lemma non_numeric_example: "list_ex (\<lambda>c. \<not> numeric_char c) ''n/a''"
  by (simp add: numeric_char_def digit_value_def is_space_def)

lemma get_malformed_row:
  "get malformed_row fields_humangood = Str ''n/a''"
  "get malformed_row fields_progyears = Str []"
  "get malformed_row ''Timestamp'' = Str ''25 April 2014''"
  "get malformed_row fields_favlang = Str ''  Ruby ''"
  using example_fields_distinct
  by (auto simp: malformed_row_def get_row_of_cells columns_def malformed_cells_def)

lemma blank_lang_examples:
  "list_all (\<lambda>(lang, r). \<not> js_match (toLowerCase (trim ''  Ruby '')) r) langPatterns"
  "toLowerCase (trim ''  Ruby '') = ''ruby''"
  by code_simp+

lemma stamp_without_zone: "\<not> (\<exists>p. ''25 April 2014'' = p @ '' AST'')"
proof
  assume "\<exists>p. ''25 April 2014'' = p @ '' AST''"
  then obtain p where "''25 April 2014'' = p @ '' AST''" by blast
  then have "rev ''25 April 2014'' = rev (p @ '' AST'')" by (rule arg_cong)
  then show False by simp
qed

section \<open>The claims about the language normaliser\<close>

text \<open>
  Claim C5.  \<^verbatim>\<open>parseLang("Golang")\<close> is \<^verbatim>\<open>"go"\<close>, \<^verbatim>\<open>parseLang("Python 3")\<close> is
  \<^verbatim>\<open>"python"\<close>, \<^verbatim>\<open>parseLang("  C++11")\<close> is \<^verbatim>\<open>"c++"\<close>, and \<^verbatim>\<open>parseLang("Ruby")\<close> is
  \<^verbatim>\<open>"ruby"\<close>: no alias pattern matches it, and the trimmed, lower-cased input is
  returned.
\<close>

theorem parseLang_examples:
  "parseLang (Str ''Golang'') = Inr (Str ''go'')
   \<and> parseLang (Str ''Python 3'') = Inr (Str ''python'')
   \<and> parseLang (Str ''  C++11'') = Inr (Str ''c++'')
   \<and> parseLang (Str ''Ruby'') = Inr (Str ''ruby'')
   \<and> list_all (\<lambda>(lang, r). \<not> js_match (toLowerCase (trim ''Ruby'')) r) langPatterns
   \<and> toLowerCase (trim ''Ruby'') = ''ruby''"
  by code_simp

text \<open>
  Claim C10.  \<^verbatim>\<open>parseLang\<close> is idempotent: for every string \<open>x\<close> the call returns a
  string, and \<^verbatim>\<open>parseLang\<close> applied to that result returns it again.  Every canonical
  tag is mapped to itself.
\<close>

theorem parseLang_idempotent:
  "parseLang (Str x) = Inr (Str (parseLang_string x))
   \<and> parseLang (Str (parseLang_string x)) = parseLang (Str x)
   \<and> list_all (\<lambda>(lang, r). parseLang (Str lang) = Inr (Str lang)) langPatterns"
  by (simp add: parseLang_string_idem parseLang_string_tags langPatterns_def)

section \<open>The claims about the page\<close>

text \<open>
  Claim C1.  For every successful data load (an array of rows is passed to the
  callback), the run appends two elements to the container, the chart of
  \<^verbatim>\<open>renderResponseStream\<close> and the table of \<^verbatim>\<open>renderAgreementTable\<close>.

  The callback calls \<^verbatim>\<open>renderResponseStream\<close> only.  On the four normalised rows of
  the worked example, and on the empty array, the container ends with one child, the
  \<^verbatim>\<open>svg\<close>; on any array the callback either raises or appends exactly that one element, and
  never a \<^verbatim>\<open>section\<close>.
\<close>

theorem on_load_renders_chart_only:
  "on_load (Some example_rows) [] = Inr [Svg [True, False]]
   \<and> on_load (Some []) [] = Inr [Svg []]
   \<and> (on_load (Some rows) viz_area = Inl TypeError
        \<or> (\<exists>ks. on_load (Some rows) viz_area = Inr (viz_area @ [Svg ks])))"
proof -
  have "on_load (Some rows) viz_area = Inl TypeError
        \<or> (\<exists>ks. on_load (Some rows) viz_area = Inr (viz_area @ [Svg ks]))"
    by (cases "key_all rows") (auto simp: on_load_def renderResponseStream_def intro: error.exhaust)
  then show ?thesis
    by (simp add: on_load_def renderResponseStream_def isReligious_def get_example_normalized
        religions_def example_rows_def)
qed

section \<open>The claims about the predicates\<close>

text \<open>
  Claim C4.  For every normalised record (its beliefs are an array), \<^verbatim>\<open>isReligious\<close>
  returns true if and only if the array contains, by exact and case-sensitive equality
  of strings, at least one of Christian, Buddhist, Jewish, Muslim, Pagan, Hindu.
\<close>

theorem isReligious_iff:
  "get d fields_beliefs = Arr xs \<Longrightarrow>
   isReligious d
     = Inr (set xs \<inter> {''Christian'', ''Buddhist'', ''Jewish'', ''Muslim'', ''Pagan'', ''Hindu''} \<noteq> {})"
  by (auto simp: isReligious_def religions_def list_ex_iff)

theorem isReligious_iff_witness:
  "get (example_normalized [''Christian'', ''Liberal''] 4 ''go'') fields_beliefs
     = Arr [''Christian'', ''Liberal'']
   \<and> isReligious (example_normalized [''Christian'', ''Liberal''] 4 ''go'') = Inr True
   \<and> isReligious (example_normalized [''christian''] 4 ''go'') = Inr False"
  using isReligious_iff[of "example_normalized [''Christian'', ''Liberal''] 4 ''go''"
      "[''Christian'', ''Liberal'']"]
    isReligious_iff[of "example_normalized [''christian''] 4 ''go''" "[''christian'']"]
  by (simp add: get_example_normalized)

section \<open>The claims about the cross-tabulation\<close>

text \<open>
  Claim C6.  Every language in the output of the cross-tabulation has counters whose
  total is above 3, the total being the number of rows with an opinion that name the
  language; its three fractions are the counters divided by the total, each a finite
  number that is not negative, and their exact sum differs from 1 by at most
  \<open>2\<^sup>-\<^sup>5\<^sup>2\<close>, the rounding of the three divisions.
\<close>

theorem agreement_data_retained:
  "\<forall>(key, fr) \<in> set (agreement_data H rows).
     \<exists>a b c f0 f1 f2.
       map_of (agreement_stats H rows) key = Some [a, b, c] \<and> 3 < a + b + c
       \<and> a + b + c = length (filter (\<lambda>r. makeHasOpinion fields_humangood r
                          \<and> property_key H (get r fields_favlang) = key) rows)
       \<and> fr = [divide_counts a (a + b + c), divide_counts b (a + b + c),
               divide_counts c (a + b + c)]
       \<and> fr = [Fin f0, Fin f1, Fin f2] \<and> 0 \<le> f0 \<and> 0 \<le> f1 \<and> 0 \<le> f2
       \<and> \<bar>f0 + f1 + f2 - 1\<bar> \<le> 1 / 2 ^ 52"
proof (clarify)
  fix key fr
  assume "(key, fr) \<in> set (agreement_data H rows)"
  from agreement_data_entry[OF this] obtain a b c where
    abc: "map_of (agreement_stats H rows) key = Some [a, b, c]" "3 < a + b + c"
      "fr = [divide_counts a (a + b + c), divide_counts b (a + b + c),
                    divide_counts c (a + b + c)]" by blast
  from agreement_stats_total[OF abc(1)]
  have n: "a + b + c = length (filter (\<lambda>r. makeHasOpinion fields_humangood r
                          \<and> property_key H (get r fields_favlang) = key) rows)"
    by simp
  from fractions_sum[OF abc(2)] obtain f0 f1 f2 where
    f: "[divide_counts a (a + b + c), divide_counts b (a + b + c),
                    divide_counts c (a + b + c)] = [Fin f0, Fin f1, Fin f2]"
      "0 \<le> f0" "0 \<le> f1" "0 \<le> f2" "\<bar>f0 + f1 + f2 - 1\<bar> \<le> 1 / 2 ^ 52"
    by blast
  show "\<exists>a b c f0 f1 f2.
       map_of (agreement_stats H rows) key = Some [a, b, c] \<and> 3 < a + b + c
       \<and> a + b + c = length (filter (\<lambda>r. makeHasOpinion fields_humangood r
                          \<and> property_key H (get r fields_favlang) = key) rows)
       \<and> fr = [divide_counts a (a + b + c), divide_counts b (a + b + c),
               divide_counts c (a + b + c)]
       \<and> fr = [Fin f0, Fin f1, Fin f2] \<and> 0 \<le> f0 \<and> 0 \<le> f1 \<and> 0 \<le> f2
       \<and> \<bar>f0 + f1 + f2 - 1\<bar> \<le> 1 / 2 ^ 52"
    apply (rule exI[of _ a], rule exI[of _ b], rule exI[of _ c])
    apply (rule exI[of _ f0], rule exI[of _ f1], rule exI[of _ f2])
    using abc n f by auto
qed

theorem agreement_data_retained_witness:
  "(''go'', [Fin (1 / 4), Fin (1 / 4), Fin (1 / 2)]) \<in> set (agreement_data example_host example_rows)
   \<and> map_of (agreement_stats example_host example_rows) ''go'' = Some [1, 1, 2]
   \<and> length (filter (\<lambda>r. makeHasOpinion fields_humangood r
          \<and> property_key example_host (get r fields_favlang) = ''go'') example_rows) = 4
   \<and> \<bar>1 / 4 + 1 / 4 + 1 / 2 - 1 :: rat\<bar> \<le> 1 / 2 ^ 52"
  using agreement_data_retained[of example_host example_rows]
  by (simp add: example_rows_eval)

text \<open>
  Claim C7.  The \<^verbatim>\<open>div\<close>s of the table, which are the data of the cross-tabulation
  in another order, stand in descending order of the fraction of agreement: for every
  two adjacent entries \<^verbatim>\<open>agree[i] >= agree[i+1]\<close>.
\<close>

theorem agreement_table_sorted:
  "\<exists>divs. renderAgreementTable H rows viz_area = viz_area @ [Section divs]
     \<and> set divs = set (agreement_data H rows) \<and> length divs = length (agreement_data H rows)
     \<and> (\<forall>i. Suc i < length divs \<longrightarrow> js_ge (agree (divs ! i)) (agree (divs ! Suc i)))"
proof -
  define divs where "divs = sort_by (\<lambda>a b. d3_descending (agree a) (agree b)) (agreement_data H rows)"
  have srt: "sorted_wrt (\<lambda>a b. js_ge (agree a) (agree b)) divs"
    unfolding divs_def by (rule sort_by_sorted) (simp add: agreement_data_agree)
  have "js_ge (agree (divs ! i)) (agree (divs ! Suc i))" if "Suc i < length divs" for i
    using sorted_wrt_nth_less[OF srt, of i "Suc i"] that by simp
  then show ?thesis
    by (auto simp: renderAgreementTable_def divs_def set_sort_by length_sort_by)
qed

theorem agreement_table_sorted_witness:
  "renderAgreementTable example_host example_rows_two []
     = [Section [(''ruby'', [Fin 0, Fin 0, Fin 1]),
                 (''go'', [Fin (1 / 4), Fin (1 / 4), Fin (1 / 2)])]]
   \<and> js_ge (agree (''ruby'', [Fin 0, Fin 0, Fin 1]))
            (agree (''go'', [Fin (1 / 4), Fin (1 / 4), Fin (1 / 2)]))"
proof -
  have r: "renderAgreementTable example_host example_rows_two []
     = [Section [(''ruby'', [Fin 0, Fin 0, Fin 1]),
                 (''go'', [Fin (1 / 4), Fin (1 / 4), Fin (1 / 2)])]]"
    by (simp add: renderAgreementTable_def example_rows_two_eval sort_by_def agree_def
        d3_descending_def js_ge_def)
  from agreement_table_sorted[of example_host example_rows_two "[]"] obtain divs where
    d: "renderAgreementTable example_host example_rows_two [] = [] @ [Section divs]"
      "\<forall>i. Suc i < length divs \<longrightarrow> js_ge (agree (divs ! i)) (agree (divs ! Suc i))"
    by blast
  from d(1) r have "divs = [(''ruby'', [Fin 0, Fin 0, Fin 1]),
                 (''go'', [Fin (1 / 4), Fin (1 / 4), Fin (1 / 2)])]" by simp
  with d(2)[rule_format, of 0] r show ?thesis by simp
qed

section \<open>The claims about the row normaliser\<close>

text \<open>
  Claim C9.  \<^verbatim>\<open>parseRow\<close> writes into the object it is given and returns that same
  object: the address returned is the one passed, no other object of the store
  changes, and in the object only the multi-valued fields, the numeric fields, the
  time stamp and the favourite language can change; the feedback stays as it was.  On
  a raw record the call returns, and those fields then hold arrays, numbers and the
  normalised language.
\<close>

theorem parseRow_in_place:
  "parseRow H d h = (r, h') \<Longrightarrow>
     (\<forall>x. r = Inr x \<longrightarrow> x = d)
   \<and> (\<forall>a. a \<noteq> d \<longrightarrow> h' a = h a)
   \<and> (\<forall>j. j \<notin> set multiValuedFields \<union> set numericFields \<union> {''Timestamp'', fields_favlang}
          \<longrightarrow> h' d j = h d j)
   \<and> h' d fields_feedback = h d fields_feedback
   \<and> (raw_record (h d) \<longrightarrow>
        r = Inr d
        \<and> (\<forall>j \<in> set multiValuedFields. \<exists>xs. get (h' d) j = Arr xs)
        \<and> (\<forall>j \<in> set numericFields. \<exists>n. get (h' d) j = Num n)
        \<and> (\<exists>l. get (h' d) fields_favlang = Str l))"
proof -
  assume p: "parseRow H d h = (r, h')"
  have fb: "fields_feedback \<notin> set multiValuedFields \<union> set numericFields \<union> {''Timestamp'', fields_favlang}"
    by (simp add: multiValuedFields_def numericFields_def statements_def otherNums_def
      fields_beliefs_def fields_worklangs_def fields_superexst_def fields_superpers_def
      fields_godrelate_def fields_godspeaks_def fields_bibletrue_def fields_bibleusfl_def
      fields_divpunish_def fields_divreward_def fields_universal_def fields_humangood_def
      fields_suffersin_def fields_humancrea_def fields_naturcrea_def fields_progyears_def
      fields_workyears_def fields_favlang_def fields_feedback_def)
  note fr = parseRow_frame[OF p]
  have "r = Inr d
        \<and> (\<forall>j \<in> set multiValuedFields. \<exists>xs. get (h' d) j = Arr xs)
        \<and> (\<forall>j \<in> set numericFields. \<exists>n. get (h' d) j = Num n)
        \<and> (\<exists>l. get (h' d) fields_favlang = Str l)" if "raw_record (h d)"
    using raw_record_parseRow[where h=h and d=d and H=H, OF that] p
    by (auto simp: get_def multiValuedFields_def)
  with fr fb show ?thesis by blast
qed

theorem parseRow_in_place_witness:
  "fst (parseRow example_host 0 (\<lambda>a. example_row ''Christian'' ''4'' ''Go'')) = Inr 0
   \<and> snd (parseRow example_host 0 (\<lambda>a. example_row ''Christian'' ''4'' ''Go'')) 1
       = example_row ''Christian'' ''4'' ''Go''
   \<and> get (snd (parseRow example_host 0 (\<lambda>a. example_row ''Christian'' ''4'' ''Go'')) 0)
        fields_feedback = Str []
   \<and> (\<exists>l. get (snd (parseRow example_host 0 (\<lambda>a. example_row ''Christian'' ''4'' ''Go'')) 0)
        fields_favlang = Str l)"
proof -
  define h0 :: store where "h0 = (\<lambda>a. example_row ''Christian'' ''4'' ''Go'')"
  have raw: "raw_record (h0 0)"
    by (simp add: h0_def example_row_def raw_record_row_of_cells)
  have "parseRow example_host 0 h0 = (fst (parseRow example_host 0 h0), snd (parseRow example_host 0 h0))"
    by simp
  from parseRow_in_place[OF this] raw
  have "fst (parseRow example_host 0 h0) = Inr 0"
    "snd (parseRow example_host 0 h0) 1 = h0 1"
    "snd (parseRow example_host 0 h0) 0 fields_feedback = h0 0 fields_feedback"
    "\<exists>l. get (snd (parseRow example_host 0 h0) 0) fields_favlang = Str l"
    by auto
  moreover have "get (h0 0) fields_feedback = Str []"
    by (simp add: h0_def get_example_row_feedback)
  ultimately show ?thesis
    by (simp add: h0_def get_def)
qed

text \<open>
  Claim C8.  For every raw record, a record in which every column of the survey
  holds a string, \<^verbatim>\<open>parseRow\<close> does not raise.  A numeric field becomes the number
  that the unary plus reads from its string: 0 for the empty string, not-a-number
  for text with a character that no numeric literal contains.  The time stamp
  becomes what the parser of the time format returns: the sentinel \<^verbatim>\<open>null\<close> for a
  string that does not match the format, as every string that does not end in
  \<^verbatim>\<open>" AST"\<close>, and a date otherwise.  The favourite language becomes its normal form,
  which is the trimmed and lower-cased input when no alias pattern matches.
\<close>

theorem parseRow_never_raises:
  assumes "raw_record (h d)"
  shows "\<exists>h'. parseRow H d h = (Inr d, h')
     \<and> (\<forall>j \<in> set numericFields. \<forall>s. get (h d) j = Str s \<longrightarrow>
           get (h' d) j = Num (string_to_number s)
           \<and> (s = [] \<longrightarrow> get (h' d) j = Num (Fin 0))
           \<and> (list_ex (\<lambda>c. \<not> numeric_char c) s \<longrightarrow> get (h' d) j = Num NaN))
     \<and> (\<forall>t. get (h d) ''Timestamp'' = Str t \<longrightarrow>
           get (h' d) ''Timestamp'' = timeFormat_parse H t
           \<and> (timeFormat_fields t = None \<longrightarrow> get (h' d) ''Timestamp'' = Null)
           \<and> (\<not> (\<exists>p. t = p @ '' AST'') \<longrightarrow> get (h' d) ''Timestamp'' = Null)
           \<and> (timeFormat_fields t \<noteq> None \<longrightarrow> (\<exists>v. get (h' d) ''Timestamp'' = Date v)))
     \<and> (\<forall>l. get (h d) fields_favlang = Str l \<longrightarrow>
           get (h' d) fields_favlang = Str (parseLang_string l)
           \<and> (list_all (\<lambda>(lang, r). \<not> js_match (toLowerCase (trim l)) r) langPatterns \<longrightarrow>
                get (h' d) fields_favlang = Str (toLowerCase (trim l))))"
proof -
  from raw_record_parseRow[where h=h and d=d and H=H, OF assms] obtain h' t l where
    p: "parseRow H d h = (Inr d, h')"
      "get (h d) ''Timestamp'' = Str t" "get (h d) fields_favlang = Str l"
      "\<forall>j \<in> set numericFields. h' d j = Some (Num (to_number (get (h d) j)))"
      "h' d ''Timestamp'' = Some (timeFormat_parse H t)"
      "h' d fields_favlang = Some (Str (parseLang_string l))"
    by blast
  have num: "get (h' d) j = Num (string_to_number s)"
    if "j \<in> set numericFields" "get (h d) j = Str s" for j s
    using that p(4) by (simp add: get_def)
  have lang: "parseLang_string l = toLowerCase (trim l)"
    if "list_all (\<lambda>(lang, r). \<not> js_match (toLowerCase (trim l)) r) langPatterns"
    using that by (simp add: parseLang_string_def first_match_none)
  have ts: "get (h' d) ''Timestamp'' = timeFormat_parse H t"
    using p(5) by (simp add: get_def)
  have zone: "timeFormat_fields t = None" if "\<not> (\<exists>p. t = p @ '' AST'')"
    using that timeFormat_fields_zone[of t] by (cases "timeFormat_fields t") auto
  have stamp: "(timeFormat_fields t = None \<longrightarrow> get (h' d) ''Timestamp'' = Null)
           \<and> (\<not> (\<exists>p. t = p @ '' AST'') \<longrightarrow> get (h' d) ''Timestamp'' = Null)
           \<and> (timeFormat_fields t \<noteq> None \<longrightarrow> (\<exists>v. get (h' d) ''Timestamp'' = Date v))"
    using zone timeFormat_parse_cases(2,3)[of t H] by (auto simp: ts)
  have tsc: "\<forall>t'. get (h d) ''Timestamp'' = Str t' \<longrightarrow>
           get (h' d) ''Timestamp'' = timeFormat_parse H t'
           \<and> (timeFormat_fields t' = None \<longrightarrow> get (h' d) ''Timestamp'' = Null)
           \<and> (\<not> (\<exists>p. t' = p @ '' AST'') \<longrightarrow> get (h' d) ''Timestamp'' = Null)
           \<and> (timeFormat_fields t' \<noteq> None \<longrightarrow> (\<exists>v. get (h' d) ''Timestamp'' = Date v))"
  proof (intro allI impI)
    fix t'
    assume "get (h d) ''Timestamp'' = Str t'"
    with p(2) have t': "t' = t" by simp
    from ts stamp show "get (h' d) ''Timestamp'' = timeFormat_parse H t'
           \<and> (timeFormat_fields t' = None \<longrightarrow> get (h' d) ''Timestamp'' = Null)
           \<and> (\<not> (\<exists>p. t' = p @ '' AST'') \<longrightarrow> get (h' d) ''Timestamp'' = Null)
           \<and> (timeFormat_fields t' \<noteq> None \<longrightarrow> (\<exists>v. get (h' d) ''Timestamp'' = Date v))"
      unfolding t' by blast
  qed
  have numc: "\<forall>j \<in> set numericFields. \<forall>s. get (h d) j = Str s \<longrightarrow>
           get (h' d) j = Num (string_to_number s)
           \<and> (s = [] \<longrightarrow> get (h' d) j = Num (Fin 0))
           \<and> (list_ex (\<lambda>c. \<not> numeric_char c) s \<longrightarrow> get (h' d) j = Num NaN)"
    using num by (auto simp: number_examples non_numeric_text)
  have lang0: "get (h' d) fields_favlang = Str (parseLang_string l)
           \<and> (list_all (\<lambda>(lang, r). \<not> js_match (toLowerCase (trim l)) r) langPatterns \<longrightarrow>
                get (h' d) fields_favlang = Str (toLowerCase (trim l)))"
    using lang p(6) by (auto simp: get_def)
  have langc: "\<forall>l'. get (h d) fields_favlang = Str l' \<longrightarrow>
           get (h' d) fields_favlang = Str (parseLang_string l')
           \<and> (list_all (\<lambda>(lang, r). \<not> js_match (toLowerCase (trim l')) r) langPatterns \<longrightarrow>
                get (h' d) fields_favlang = Str (toLowerCase (trim l')))"
  proof (intro allI impI)
    fix l'
    assume "get (h d) fields_favlang = Str l'"
    with p(3) have l': "l' = l" by simp
    from lang0 show "get (h' d) fields_favlang = Str (parseLang_string l')
           \<and> (list_all (\<lambda>(lang, r). \<not> js_match (toLowerCase (trim l')) r) langPatterns \<longrightarrow>
                get (h' d) fields_favlang = Str (toLowerCase (trim l')))"
      unfolding l' by blast
  qed
  from p(1) numc tsc langc show ?thesis by blast
qed

theorem parseRow_never_raises_witness:
  "raw_record malformed_row
   \<and> (\<exists>h'. parseRow example_host 0 (\<lambda>a. malformed_row) = (Inr 0, h')
         \<and> get (h' 0) fields_humangood = Num NaN
         \<and> get (h' 0) fields_progyears = Num (Fin 0)
         \<and> get (h' 0) ''Timestamp'' = Null
         \<and> get (h' 0) fields_favlang = Str ''ruby'')
   \<and> raw_record (example_row ''Christian'' ''4'' ''Go'')
   \<and> (\<exists>h'. parseRow example_host 0 (\<lambda>a. example_row ''Christian'' ''4'' ''Go'') = (Inr 0, h')
         \<and> get (h' 0) ''Timestamp'' = Date (Fin 1398426249000))"
proof -
  have raw: "raw_record malformed_row"
    by (simp add: malformed_row_def raw_record_row_of_cells)
  note g = get_malformed_row
  from parseRow_never_raises[where h="\<lambda>a. malformed_row" and d=0 and H=example_host] raw
  obtain h' where p: "parseRow example_host 0 (\<lambda>a. malformed_row) = (Inr 0, h')"
    and num: "\<forall>j \<in> set numericFields. \<forall>s. get malformed_row j = Str s \<longrightarrow>
           get (h' 0) j = Num (string_to_number s)
           \<and> (s = [] \<longrightarrow> get (h' 0) j = Num (Fin 0))
           \<and> (list_ex (\<lambda>c. \<not> numeric_char c) s \<longrightarrow> get (h' 0) j = Num NaN)"
    and ts: "\<forall>t. get malformed_row ''Timestamp'' = Str t \<longrightarrow>
           get (h' 0) ''Timestamp'' = timeFormat_parse example_host t
           \<and> (timeFormat_fields t = None \<longrightarrow> get (h' 0) ''Timestamp'' = Null)
           \<and> (\<not> (\<exists>p. t = p @ '' AST'') \<longrightarrow> get (h' 0) ''Timestamp'' = Null)
           \<and> (timeFormat_fields t \<noteq> None \<longrightarrow> (\<exists>v. get (h' 0) ''Timestamp'' = Date v))"
    and lang: "\<forall>l. get malformed_row fields_favlang = Str l \<longrightarrow>
           get (h' 0) fields_favlang = Str (parseLang_string l)
           \<and> (list_all (\<lambda>(lang, r). \<not> js_match (toLowerCase (trim l)) r) langPatterns \<longrightarrow>
                get (h' 0) fields_favlang = Str (toLowerCase (trim l)))"
    by auto
  from num humangood_numeric(2) g(1) non_numeric_example
  have "get (h' 0) fields_humangood = Num NaN" by blast
  moreover from num humangood_numeric(3) g(2)
  have "get (h' 0) fields_progyears = Num (Fin 0)" by blast
  moreover from ts g(3) stamp_without_zone have "get (h' 0) ''Timestamp'' = Null"
    by blast
  moreover from lang g(4) blank_lang_examples(1)
  have "get (h' 0) fields_favlang = Str (toLowerCase (trim ''  Ruby ''))" by blast
  ultimately have bad: "\<exists>h'. parseRow example_host 0 (\<lambda>a. malformed_row) = (Inr 0, h')
         \<and> get (h' 0) fields_humangood = Num NaN
         \<and> get (h' 0) fields_progyears = Num (Fin 0)
         \<and> get (h' 0) ''Timestamp'' = Null
         \<and> get (h' 0) fields_favlang = Str ''ruby''"
    using p by (auto simp: blank_lang_examples(2))
  define good where "good = example_row ''Christian'' ''4'' ''Go''"
  have raw2: "raw_record good"
    by (simp add: good_def example_row_def raw_record_row_of_cells)
  have g2: "get good ''Timestamp'' = Str ''2014/04/25 11:44:09 AM AST''"
    by (simp add: good_def get_example_row)
  from parseRow_never_raises[where h="\<lambda>a. good" and d=0 and H=example_host] raw2
  obtain k' where q: "parseRow example_host 0 (\<lambda>a. good) = (Inr 0, k')"
    and ts2: "\<forall>t. get good ''Timestamp'' = Str t \<longrightarrow>
           get (k' 0) ''Timestamp'' = timeFormat_parse example_host t
           \<and> (timeFormat_fields t = None \<longrightarrow> get (k' 0) ''Timestamp'' = Null)
           \<and> (\<not> (\<exists>p. t = p @ '' AST'') \<longrightarrow> get (k' 0) ''Timestamp'' = Null)
           \<and> (timeFormat_fields t \<noteq> None \<longrightarrow> (\<exists>v. get (k' 0) ''Timestamp'' = Date v))"
    by auto
  from ts2 g2 have "get (k' 0) ''Timestamp'' = Date (Fin 1398426249000)"
    by (simp add: parse_examples)
  with q have ok: "\<exists>h'. parseRow example_host 0 (\<lambda>a. good) = (Inr 0, h')
         \<and> get (h' 0) ''Timestamp'' = Date (Fin 1398426249000)"
    by blast
  from raw bad raw2 ok show ?thesis
    by (simp add: good_def)
qed

text \<open>
  Claim C3, as stated: for every statement field and every raw record, the predicate
  of \<^verbatim>\<open>makeHasOpinion(field)\<close>, applied after normalisation, is false exactly when the
  raw string was \<^verbatim>\<open>"0"\<close> or non-numeric text.  It fails: the raw strings \<^verbatim>\<open>"-1"\<close> and
  \<^verbatim>\<open>""\<close> are neither, the first reads as the number -1 and the second as 0, and the
  predicate is false for both.
\<close>

theorem hasOpinion_counterexample:
  "fields_humangood \<in> set statements
   \<and> get (example_row ''Christian'' ''-1'' ''Go'') fields_humangood = Str ''-1''
   \<and> (\<exists>d. normalize example_host (example_row ''Christian'' ''-1'' ''Go'') = Inr d
         \<and> makeHasOpinion fields_humangood d = False)
   \<and> ''-1'' \<noteq> ''0'' \<and> string_to_number ''-1'' = Fin (- 1)
   \<and> get (example_row ''Christian'' [] ''Go'') fields_humangood = Str []
   \<and> (\<exists>d. normalize example_host (example_row ''Christian'' [] ''Go'') = Inr d
         \<and> makeHasOpinion fields_humangood d = False)
   \<and> [] \<noteq> ''0'' \<and> string_to_number [] = Fin 0"
proof -
  have no: "\<exists>d. normalize example_host (example_row ''Christian'' g ''Go'') = Inr d
         \<and> makeHasOpinion fields_humangood d = js_lt (Fin 0) (string_to_number g)" for g
  proof -
    have "raw_record (example_row ''Christian'' g ''Go'')"
      by (simp add: example_row_def raw_record_row_of_cells)
    from normalize_field[OF this, of example_host] show ?thesis
      by (auto simp: makeHasOpinion_def humangood_numeric get_example_row)
  qed
  from no[of "''-1''"] no[of "[]"] show ?thesis
    by (simp add: number_examples humangood_numeric get_example_row)
qed

text \<open>
  Claim C3, amended: for every statement field and every raw record, the predicate is
  true exactly when the number that the unary plus reads from the raw string is
  greater than 0.  So it is false for \<^verbatim>\<open>"0"\<close> and for text that is not a number, as
  stated, and also for every other string that reads as zero or as a negative number.
\<close>

theorem hasOpinion_after_normalize:
  assumes "raw_record raw" "field \<in> set statements" "get raw field = Str s"
  shows "\<exists>d. normalize H raw = Inr d
     \<and> makeHasOpinion field d = js_lt (Fin 0) (string_to_number s)
     \<and> (s = ''0'' \<or> string_to_number s = NaN \<longrightarrow> \<not> makeHasOpinion field d)"
proof -
  from normalize_field[OF assms(1), of H] obtain d where
    d: "normalize H raw = Inr d" "\<forall>j \<in> set numericFields. get d j = Num (to_number (get raw j))"
    by blast
  from d(2) assms(2,3) have "get d field = Num (string_to_number s)"
    by (simp add: statements_numeric)
  then have "makeHasOpinion field d = js_lt (Fin 0) (string_to_number s)"
    by (simp add: makeHasOpinion_def)
  with d(1) show ?thesis
    by (auto simp: number_examples)
qed

theorem hasOpinion_after_normalize_witness:
  "raw_record (example_row ''Christian'' ''4'' ''Go'')
   \<and> fields_humangood \<in> set statements
   \<and> get (example_row ''Christian'' ''4'' ''Go'') fields_humangood = Str ''4''
   \<and> (\<exists>d. normalize example_host (example_row ''Christian'' ''4'' ''Go'') = Inr d
         \<and> makeHasOpinion fields_humangood d)"
proof -
  have raw: "raw_record (example_row ''Christian'' ''4'' ''Go'')"
    by (simp add: example_row_def raw_record_row_of_cells)
  from hasOpinion_after_normalize[OF raw humangood_numeric(1) get_example_row(2), of example_host]
  show ?thesis
    using raw by (auto simp: number_examples humangood_numeric get_example_row)
qed

section \<open>The worked example\<close>

text \<open>
  Claim C2.  Four raw records with the responses 4, 2, 3 and 5 to the statement
  \<^verbatim>\<open>fields.humangood\<close> and the favourite language \<^verbatim>\<open>"Go"\<close>, whatever their other cells
  hold, are normalised without a raise; the cross-tabulation of the normalised rows
  has the one key \<^verbatim>\<open>"go"\<close> with the counters 1, 1, 2 for disagree, neutral, agree;
  their total 4 is above 3, so the key is retained, and the fractions are 0.25, 0.25
  and 0.5.
\<close>

theorem crosstab_example:
  assumes "survey_row ''Christian;Liberal'' ''4'' ''Go'' r1"
    and "survey_row ''Atheist'' ''2'' ''Go'' r2"
    and "survey_row ''Christian'' ''3'' ''Go'' r3"
    and "survey_row ''Christian'' ''5'' ''Go'' r4"
  shows "\<exists>rows. normalize_all H [r1, r2, r3, r4] = Inr rows
     \<and> agreement_stats H rows = [(''go'', [1, 1, 2])]
     \<and> (3::nat) < sum_list [1, 1, 2]
     \<and> agreement_data H rows = [(''go'', [Fin (1 / 4), Fin (1 / 4), Fin (1 / 2)])]"
proof -
  have row: "\<exists>d. normalize H r = Inr d \<and> get d fields_humangood = Num (string_to_number g)
               \<and> get d fields_favlang = Str ''go''"
    if "survey_row b g ''Go'' r" for b g r
  proof -
    from that have r: "raw_record r" "get r fields_humangood = Str g" "get r fields_favlang = Str ''Go''"
      by (simp_all add: survey_row_def)
    from normalize_field[OF r(1), of H] r(2,3) show ?thesis
      by (auto simp: humangood_numeric lang_examples)
  qed
  from row[OF assms(1)] row[OF assms(2)] row[OF assms(3)] row[OF assms(4)]
  obtain d1 d2 d3 d4 where
    n: "normalize H r1 = Inr d1" "normalize H r2 = Inr d2" "normalize H r3 = Inr d3"
      "normalize H r4 = Inr d4"
    and g: "get d1 fields_humangood = Num (Fin 4)" "get d1 fields_favlang = Str ''go''"
      "get d2 fields_humangood = Num (Fin 2)" "get d2 fields_favlang = Str ''go''"
      "get d3 fields_humangood = Num (Fin 3)" "get d3 fields_favlang = Str ''go''"
      "get d4 fields_humangood = Num (Fin 5)" "get d4 fields_favlang = Str ''go''"
    by (auto simp: number_examples)
  have "normalize_all H [r1, r2, r3, r4] = Inr [d1, d2, d3, d4]"
    by (simp add: n)
  with example_crosstab[OF g, of H] show ?thesis by simp
qed

theorem crosstab_example_witness:
  "survey_row ''Christian;Liberal'' ''4'' ''Go'' (example_row ''Christian;Liberal'' ''4'' ''Go'')
   \<and> (\<exists>rows. normalize_all example_host
          [example_row ''Christian;Liberal'' ''4'' ''Go'', example_row ''Atheist'' ''2'' ''Go'',
           example_row ''Christian'' ''3'' ''Go'', example_row ''Christian'' ''5'' ''Go'']
          = Inr rows
        \<and> agreement_stats example_host rows = [(''go'', [1, 1, 2])]
        \<and> agreement_data example_host rows
            = [(''go'', [Fin (1 / 4), Fin (1 / 4), Fin (1 / 2)])])"
  using crosstab_example[OF survey_row_example survey_row_example survey_row_example
      survey_row_example, of example_host]
  by (auto simp: survey_row_example)

end
